theory Spec2Isabelle
  imports
    Complex_Main
    "HOL-Library.Char_ord"
    "HOL-Library.List_Lexorder"
    "HOL-Library.Product_Lexorder"
    "HOL-Library.Multiset"
begin

section \<open>Data model\<close>

text \<open>
  The dashboard of \<^verbatim>\<open>UTS.py\<close> works on one pandas DataFrame. A cell of the frame is
  missing (\<open>NaN\<close>, \<open>NaT\<close>, an empty spreadsheet cell), a number, a text or a timestamp
  (year, month, day; the time of day is never read). Numbers are modelled as reals:
  rounding, infinities and the limits of \<open>int64\<close> are outside the model. A text is a
  list of characters with code points below 256.

  A frame is its list of column names and its rows; a row gives the cell of every column
  name. A cell under a name that is not among the columns of the frame is never read: every
  access of the source to a column is modelled with the test that the column exists, and
  raises \<open>KeyError\<close> otherwise, as pandas does.
\<close>

datatype cell = NA | Num real | Txt string | Stamp nat nat nat

type_synonym row = "string \<Rightarrow> cell"

record frame =
  columns :: "string list"
  rows :: "row list"

text \<open>
  What the code raises: \<open>KeyError\<close> on reading a column that the frame lacks, and
  \<open>DuplicateColumn\<close> where \<open>load_data\<close> hands a column name that two columns carry to
  \<open>pd.to_datetime\<close> or \<open>pd.to_numeric\<close> (they get a frame instead of a column and raise
  a \<open>ValueError\<close> or a \<open>TypeError\<close>).
\<close>

datatype error = KeyError string | DuplicateColumn string

text \<open>
  The pandas functions whose behaviour is not written in the repository are parameters:
  how \<open>pd.to_datetime\<close> reads a cell that is not a timestamp, how \<open>pd.to_numeric\<close>
  reads a cell that is not a number, and how \<open>astype(str)\<close> prints a cell that is not a
  text. \<open>None\<close> is what \<open>errors='coerce'\<close> turns into \<open>NaT\<close> or \<open>NaN\<close>.

  So is the sort of \<open>sort_values\<close>: its default kind is \<open>quicksort\<close>, which is not
  stable, so the order that it gives to equal values is not fixed by the code.
  \<open>argsort_desc\<close> is the indexer that the sort computes for a column of numbers with
  \<open>ascending=False\<close>: the positions of the rows in the order of the output.
\<close>

record pandas =
  parse_datetime :: "cell \<Rightarrow> (nat \<times> nat \<times> nat) option"
  parse_numeric :: "cell \<Rightarrow> real option"
  str_of :: "cell \<Rightarrow> string"
  argsort_desc :: "real list \<Rightarrow> nat list"

subsection \<open>Column names\<close>

text \<open>The characters that \<open>str.strip()\<close> removes: those for which \<open>str.isspace\<close> holds.\<close>

definition is_space :: "char \<Rightarrow> bool" where
  "is_space c =
     (c \<in> set [CHR 0x09, CHR 0x0A, CHR 0x0B, CHR 0x0C, CHR 0x0D, CHR 0x1C, CHR 0x1D, CHR 0x1E,
                CHR 0x1F, CHR '' '', CHR 0x85, CHR 0xA0])"

definition str_strip :: "string \<Rightarrow> string" where
  "str_strip s = rev (dropWhile is_space (rev (dropWhile is_space s)))"

text \<open>
  \<open>df.columns = df.columns.str.strip()\<close>: every column is renamed to its trimmed name. A
  row is then read under the trimmed names; where two columns get the same trimmed name a
  row is read at the first one (\<open>load_data\<close> raises when it reads such a name, see below).
\<close>

definition rename_row :: "string list \<Rightarrow> row \<Rightarrow> row" where
  "rename_row cols r =
     (\<lambda>c. case find (\<lambda>n. str_strip n = c) cols of Some n \<Rightarrow> r n | None \<Rightarrow> NA)"

definition strip_columns :: "frame \<Rightarrow> frame" where
  "strip_columns df =
     \<lparr>columns = map str_strip (columns df), rows = map (rename_row (columns df)) (rows df)\<rparr>"

text \<open>\<open>df[c] = f(row)\<close>: the column \<open>c\<close> is overwritten, or appended when it is new.\<close>

definition set_column :: "string \<Rightarrow> (row \<Rightarrow> cell) \<Rightarrow> frame \<Rightarrow> frame" where
  "set_column c f df =
     \<lparr>columns = (if c \<in> set (columns df) then columns df else columns df @ [c]),
      rows = map (\<lambda>r. r(c := f r)) (rows df)\<rparr>"

subsection \<open>Coercions of cells\<close>

text \<open>
  \<open>pd.to_datetime(..., errors='coerce')\<close>: a missing cell and a cell that does not parse
  become \<open>NaT\<close>; so does a date outside the range of a pandas timestamp (the years 1677
  to 2262).
\<close>

definition in_bounds :: "nat \<Rightarrow> nat \<Rightarrow> nat \<Rightarrow> bool" where
  "in_bounds y m d = (1677 \<le> y \<and> y \<le> 2262 \<and> 1 \<le> m \<and> m \<le> 12 \<and> 1 \<le> d \<and> d \<le> 31)"

definition stamp_or_nat :: "nat \<times> nat \<times> nat \<Rightarrow> cell" where
  "stamp_or_nat t = (case t of (y, m, d) \<Rightarrow> if in_bounds y m d then Stamp y m d else NA)"

definition to_datetime :: "pandas \<Rightarrow> cell \<Rightarrow> cell" where
  "to_datetime L c =
     (case c of
        NA \<Rightarrow> NA
      | Stamp y m d \<Rightarrow> stamp_or_nat (y, m, d)
      | _ \<Rightarrow> (case parse_datetime L c of None \<Rightarrow> NA | Some t \<Rightarrow> stamp_or_nat t))"

text \<open>\<open>pd.to_numeric(..., errors='coerce')\<close>; \<open>None\<close> is \<open>NaN\<close>.\<close>

definition to_numeric :: "pandas \<Rightarrow> cell \<Rightarrow> real option" where
  "to_numeric L c = (case c of Num x \<Rightarrow> Some x | NA \<Rightarrow> None | _ \<Rightarrow> parse_numeric L c)"

definition fillna0 :: "real option \<Rightarrow> real" where
  "fillna0 v = (case v of None \<Rightarrow> 0 | Some x \<Rightarrow> x)"

text \<open>\<open>astype(int)\<close> and \<open>int(...)\<close> cut the fraction off, towards zero.\<close>

definition astype_int :: "real \<Rightarrow> int" where
  "astype_int x = (if 0 \<le> x then \<lfloor>x\<rfloor> else \<lceil>x\<rceil>)"

text \<open>\<open>astype(str)\<close>: a text is itself, a missing cell prints as \<open>nan\<close>.\<close>

definition astype_str :: "pandas \<Rightarrow> cell \<Rightarrow> string" where
  "astype_str L c = (case c of Txt s \<Rightarrow> s | NA \<Rightarrow> ''nan'' | _ \<Rightarrow> str_of L c)"

text \<open>
  Arithmetic of two columns, cell by cell: a missing operand gives a missing result. The
  source applies it to columns that were coerced to numbers before.
\<close>

fun cell_mul :: "cell \<Rightarrow> cell \<Rightarrow> cell" where
  "cell_mul (Num a) (Num b) = Num (a * b)"
| "cell_mul _ _ = NA"

fun cell_sub :: "cell \<Rightarrow> cell \<Rightarrow> cell" where
  "cell_sub (Num a) (Num b) = Num (a - b)"
| "cell_sub _ _ = NA"

subsection \<open>The time keys\<close>

text \<open>
  \<open>.dt.year\<close>, \<open>.dt.month\<close> and \<open>.dt.strftime('%Y-%m')\<close> of a datetime column; all
  three are missing where the date is \<open>NaT\<close>.
\<close>

definition digit_char :: "nat \<Rightarrow> char" where
  "digit_char n = char_of (48 + n mod 10)"

fun zero_pad :: "nat \<Rightarrow> nat \<Rightarrow> string" where
  "zero_pad 0 n = []"
| "zero_pad (Suc k) n = zero_pad k (n div 10) @ [digit_char n]"

definition strftime_Ym :: "nat \<Rightarrow> nat \<Rightarrow> string" where
  "strftime_Ym y m = zero_pad 4 y @ ''-'' @ zero_pad 2 m"

fun dt_year :: "cell \<Rightarrow> cell" where
  "dt_year (Stamp y m d) = Num (real y)"
| "dt_year _ = NA"

fun dt_month :: "cell \<Rightarrow> cell" where
  "dt_month (Stamp y m d) = Num (real m)"
| "dt_month _ = NA"

fun dt_strftime_Ym :: "cell \<Rightarrow> cell" where
  "dt_strftime_Ym (Stamp y m d) = Txt (strftime_Ym y m)"
| "dt_strftime_Ym _ = NA"

section \<open>Preparation: \<open>load_data\<close>\<close>

definition parse_date_column :: "pandas \<Rightarrow> string \<Rightarrow> frame \<Rightarrow> frame" where
  "parse_date_column L c df = set_column c (\<lambda>r. to_datetime L (r c)) df"

definition numeric_columns :: "string list" where
  "numeric_columns =
     [''price'', ''qty_ordered'', ''before_discount'', ''discount_amount'',
      ''after_discount'', ''cogs'']"

definition coerce_numeric :: "pandas \<Rightarrow> string \<Rightarrow> frame \<Rightarrow> frame" where
  "coerce_numeric L c df =
     (if c \<in> set (columns df)
      then set_column c (\<lambda>r. Num (fillna0 (to_numeric L (r c)))) df
      else df)"

text \<open>\<open>df.get(c, 0)\<close>: the column when the frame has it, the number 0 otherwise.\<close>

definition df_get0 :: "frame \<Rightarrow> string \<Rightarrow> row \<Rightarrow> cell" where
  "df_get0 df c r = (if c \<in> set (columns df) then r c else Num 0)"

definition compute_net_profit :: "frame \<Rightarrow> frame" where
  "compute_net_profit df =
     (if list_all (\<lambda>col. col \<in> set (columns df)) [''before_discount'', ''cogs'', ''qty_ordered'']
      then set_column ''net_profit''
             (\<lambda>r. cell_sub (r ''before_discount'') (cell_mul (r ''cogs'') (r ''qty_ordered''))) df
      else set_column ''net_profit''
             (\<lambda>r. cell_sub (cell_mul (df_get0 df ''price'' r) (df_get0 df ''qty_ordered'' r))
                            (cell_mul (df_get0 df ''cogs'' r) (df_get0 df ''qty_ordered'' r))) df)"

definition coerce_is_valid :: "pandas \<Rightarrow> frame \<Rightarrow> frame" where
  "coerce_is_valid L df =
     (if ''is_valid'' \<in> set (columns df)
      then set_column ''is_valid''
             (\<lambda>r. Num (of_int (astype_int (fillna0 (to_numeric L (r ''is_valid'')))))) df
      else df)"

definition time_keys :: "frame \<Rightarrow> frame" where
  "time_keys df =
     set_column ''month_name'' (\<lambda>r. dt_strftime_Ym (r ''order_date''))
       (set_column ''month'' (\<lambda>r. dt_month (r ''order_date''))
         (set_column ''year'' (\<lambda>r. dt_year (r ''order_date'')) df))"

text \<open>
  The body of \<open>load_data\<close> after the file is read, in the order of the source. Reading
  \<open>df['order_date']\<close> raises \<open>KeyError\<close> on a table without that column; every other
  column is tested before it is used.
\<close>

definition prepare :: "pandas \<Rightarrow> frame \<Rightarrow> frame" where
  "prepare L df0 =
     (let df1 = parse_date_column L ''order_date'' df0;
          df2 = (if ''registered_date'' \<in> set (columns df1)
                 then parse_date_column L ''registered_date'' df1 else df1);
          df3 = fold (coerce_numeric L) numeric_columns df2;
          df4 = compute_net_profit df3;
          df5 = coerce_is_valid L df4
      in time_keys df5)"

text \<open>
  The columns that \<open>load_data\<close> hands to \<open>pd.to_datetime\<close> or \<open>pd.to_numeric\<close>, in
  the order of the source. With a name that two columns carry, \<open>df[c]\<close> is a frame and
  the conversion raises; the first such name decides. A raise leaves nothing of the steps
  before it, so the tests are made first.
\<close>

definition duplicated :: "string \<Rightarrow> string list \<Rightarrow> bool" where
  "duplicated c cols = (1 < length (filter (\<lambda>n. n = c) cols))"

definition read_columns :: "string list" where
  "read_columns = ''order_date'' # ''registered_date'' # numeric_columns @ [''is_valid'']"

definition load_data :: "pandas \<Rightarrow> frame \<Rightarrow> error + frame" where
  "load_data L raw =
     (let df0 = strip_columns raw
      in if ''order_date'' \<notin> set (columns df0) then Inl (KeyError ''order_date'')
         else (case find (\<lambda>c. duplicated c (columns df0)) read_columns of
                 Some c \<Rightarrow> Inl (DuplicateColumn c)
               | None \<Rightarrow> Inr (prepare L df0)))"

section \<open>The filters of the sidebar\<close>

record selection =
  selected_year :: int
  selected_category :: string
  selected_payment :: string
  value_transaction :: string

text \<open>
  \<open>df[df[c] ...]\<close>: reading the column raises \<open>KeyError\<close> when the frame lacks it;
  otherwise the rows whose cell passes are kept, in their order. The frame that is filtered
  is not changed: a new frame is returned.
\<close>

definition select_rows :: "string \<Rightarrow> (cell \<Rightarrow> bool) \<Rightarrow> frame \<Rightarrow> error + frame" where
  "select_rows c p df =
     (if c \<in> set (columns df) then Inr (df\<lparr>rows := filter (\<lambda>r. p (r c)) (rows df)\<rparr>)
      else Inl (KeyError c))"

definition and_then :: "error + 'a \<Rightarrow> ('a \<Rightarrow> error + 'b) \<Rightarrow> error + 'b" where
  "and_then x f = (case x of Inl e \<Rightarrow> Inl e | Inr v \<Rightarrow> f v)"

definition apply_filters :: "pandas \<Rightarrow> frame \<Rightarrow> selection \<Rightarrow> error + frame" where
  "apply_filters L df s =
     and_then (select_rows ''year'' (\<lambda>v. v = Num (of_int (selected_year s))) df) (\<lambda>d1.
     and_then (if selected_category s \<noteq> ''All''
               then select_rows ''category'' (\<lambda>v. astype_str L v = selected_category s) d1
               else Inr d1) (\<lambda>d2.
     and_then (if selected_payment s \<noteq> ''All''
               then select_rows ''payment_method'' (\<lambda>v. astype_str L v = selected_payment s) d2
               else Inr d2) (\<lambda>d3.
     if value_transaction s = ''Valid'' then select_rows ''is_valid'' (\<lambda>v. v = Num 1) d3
     else if value_transaction s = ''Not Valid'' then select_rows ''is_valid'' (\<lambda>v. v = Num 0) d3
     else Inr d3)))"

section \<open>Grouping and aggregation\<close>

text \<open>
  \<open>groupby\<close> with its defaults (\<open>sort=True\<close>, \<open>dropna=True\<close>): a row with a missing
  cell in one of the key columns is in no group; the groups come in ascending order of
  their keys, numbers before texts, texts in the order of their characters.
\<close>

fun rank :: "cell \<Rightarrow> nat \<times> real \<times> string \<times> nat list" where
  "rank (Num x) = (0, x, [], [])"
| "rank (Txt s) = (1, 0, s, [])"
| "rank (Stamp y m d) = (2, 0, [], [y, m, d])"
| "rank NA = (3, 0, [], [])"

definition key_of :: "string list \<Rightarrow> row \<Rightarrow> cell list" where
  "key_of ks r = map r ks"

definition groupby :: "string list \<Rightarrow> row list \<Rightarrow> (cell list \<times> row list) list" where
  "groupby ks rs =
     (let live = filter (\<lambda>r. NA \<notin> set (key_of ks r)) rs;
          keys = sort_key (map rank) (remdups (map (key_of ks) live))
      in map (\<lambda>k. (k, filter (\<lambda>r. key_of ks r = k) live)) keys)"

text \<open>\<open>sum\<close> of a numeric column skips missing cells; \<open>nunique\<close> counts the distinct
  cells that are not missing.\<close>

fun num :: "cell \<Rightarrow> real" where
  "num (Num x) = x"
| "num _ = 0"

definition col_sum :: "string \<Rightarrow> row list \<Rightarrow> real" where
  "col_sum c rs = sum_list (map (\<lambda>r. num (r c)) rs)"

definition nunique :: "string \<Rightarrow> row list \<Rightarrow> nat" where
  "nunique c rs = length (remdups (filter (\<lambda>v. v \<noteq> NA) (map (\<lambda>r. r c) rs)))"

text \<open>
  The first column of \<open>cs\<close> that the frame lacks raises \<open>KeyError\<close>.
\<close>

definition require :: "string list \<Rightarrow> frame \<Rightarrow> error + 'a \<Rightarrow> error + 'a" where
  "require cs df k =
     (case find (\<lambda>c. c \<notin> set (columns df)) cs of Some c \<Rightarrow> Inl (KeyError c) | None \<Rightarrow> k)"

subsection \<open>Monthly trend\<close>

text \<open>
  Dividing a float column by a count column does not raise on a zero count: it gives
  \<open>NaN\<close> for \<open>0 / 0\<close> and an infinity for any other sum. A count that the join does not
  find would be \<open>NaN\<close>, and so would its quotient.
\<close>

datatype fval = Fin real | PInf | NInf | NaN

definition fdiv :: "real \<Rightarrow> nat option \<Rightarrow> fval" where
  "fdiv s n =
     (case n of
        None \<Rightarrow> NaN
      | Some k \<Rightarrow> if k \<noteq> 0 then Fin (s / real k)
                  else if s = 0 then NaN else if 0 < s then PInf else NInf)"

record month_row =
  month_name :: "cell list"
  m_before_discount :: real
  m_net_profit :: real
  unique_orders :: "nat option"
  AOV :: fval

definition monthly_orders :: "frame \<Rightarrow> (cell list \<times> nat) list" where
  "monthly_orders df = map (\<lambda>(k, g). (k, nunique ''id'' g)) (groupby [''month_name''] (rows df))"

definition monthly_metrics :: "frame \<Rightarrow> error + month_row list" where
  "monthly_metrics df =
     require [''month_name'', ''id'', ''before_discount'', ''net_profit''] df
       (Inr (sort_key (\<lambda>m. map rank (month_name m))
          (map (\<lambda>(k, g).
                  let bd = col_sum ''before_discount'' g;
                      uo = map_of (monthly_orders df) k
                  in \<lparr>month_name = k, m_before_discount = bd,
                      m_net_profit = col_sum ''net_profit'' g,
                      unique_orders = uo, AOV = fdiv bd uo\<rparr>)
               (groupby [''month_name''] (rows df)))))"

subsection \<open>Product rollup\<close>

record prod_row =
  p_key :: "cell list"
  p_before_discount :: real
  p_after_discount :: real
  p_net_profit :: real
  p_qty_ordered :: real
  unique_customers :: nat

text \<open>
  The groups of lines 120 to 126, one row for each, in the order in which the grouping
  gives them: ascending keys.
\<close>

definition prod_groups :: "frame \<Rightarrow> prod_row list" where
  "prod_groups df =
     map (\<lambda>(k, g).
            \<lparr>p_key = k,
             p_before_discount = col_sum ''before_discount'' g,
             p_after_discount = col_sum ''after_discount'' g,
             p_net_profit = col_sum ''net_profit'' g,
             p_qty_ordered = col_sum ''qty_ordered'' g,
             unique_customers = nunique ''customer_id'' g\<rparr>)
         (groupby [''sku_id'', ''sku_name'', ''category''] (rows df))"

text \<open>
  \<open>sort_values('before_discount', ascending=False)\<close> of line 127 takes the rows at the
  positions that the sort of the library gives for the column of sums. The kind of the sort
  is the default, \<open>quicksort\<close>, which is not stable: which of two rows with equal sums
  comes first is the choice of the library.
\<close>

definition sort_values_desc :: "pandas \<Rightarrow> prod_row list \<Rightarrow> prod_row list" where
  "sort_values_desc L xs =
     map ((!) xs) (filter (\<lambda>i. i < length xs) (argsort_desc L (map p_before_discount xs)))"

definition prod_agg :: "pandas \<Rightarrow> frame \<Rightarrow> error + prod_row list" where
  "prod_agg L df =
     require [''sku_id'', ''sku_name'', ''category'', ''before_discount'', ''after_discount'',
              ''net_profit'', ''qty_ordered'', ''customer_id''] df
       (Inr (sort_values_desc L (prod_groups df)))"

text \<open>
  The overall average order value of line 135, which divides only when there is an order
  to divide by.
\<close>

definition aov_overall :: "frame \<Rightarrow> error + fval" where
  "aov_overall df =
     require [''id''] df
       (if nunique ''id'' (rows df) > 0
        then require [''before_discount''] df
               (Inr (fdiv (col_sum ''before_discount'' (rows df))
                       (Some (nunique ''id'' (rows df)))))
        else Inr NaN)"

subsection \<open>Mobile and tablet paid via JazzWallet\<close>









section \<open>The preparation, row by row\<close>

text \<open>
  Every step of \<open>load_data\<close> rewrites the rows one by one, and which rewriting it is
  depends only on the set of columns of the frame. The functions below are the steps on
  one row; the lemmas show that the frame-level steps are their maps.
\<close>

lemma rows_set_column: "rows (set_column c f df) = map (\<lambda>r. r(c := f r)) (rows df)"
  by (simp add: set_column_def)

lemma cols_set_column: "set (columns (set_column c f df)) = insert c (set (columns df))"
  by (auto simp: set_column_def)

definition row_date :: "pandas \<Rightarrow> string \<Rightarrow> row \<Rightarrow> row" where
  "row_date L c r = r(c := to_datetime L (r c))"

definition row_numeric :: "pandas \<Rightarrow> string set \<Rightarrow> string \<Rightarrow> row \<Rightarrow> row" where
  "row_numeric L C c r = (if c \<in> C then r(c := Num (fillna0 (to_numeric L (r c)))) else r)"

definition row_get0 :: "string set \<Rightarrow> string \<Rightarrow> row \<Rightarrow> cell" where
  "row_get0 C c r = (if c \<in> C then r c else Num 0)"

definition row_net_profit :: "string set \<Rightarrow> row \<Rightarrow> row" where
  "row_net_profit C r =
     (if ''before_discount'' \<in> C \<and> ''cogs'' \<in> C \<and> ''qty_ordered'' \<in> C
      then r(''net_profit'' :=
               cell_sub (r ''before_discount'') (cell_mul (r ''cogs'') (r ''qty_ordered'')))
      else r(''net_profit'' :=
               cell_sub (cell_mul (row_get0 C ''price'' r) (row_get0 C ''qty_ordered'' r))
                        (cell_mul (row_get0 C ''cogs'' r) (row_get0 C ''qty_ordered'' r))))"

definition row_is_valid :: "pandas \<Rightarrow> string set \<Rightarrow> row \<Rightarrow> row" where
  "row_is_valid L C r =
     (if ''is_valid'' \<in> C
      then r(''is_valid'' := Num (of_int (astype_int (fillna0 (to_numeric L (r ''is_valid''))))))
      else r)"

definition row_time_keys :: "row \<Rightarrow> row" where
  "row_time_keys r =
     r(''year'' := dt_year (r ''order_date''), ''month'' := dt_month (r ''order_date''),
       ''month_name'' := dt_strftime_Ym (r ''order_date''))"

definition prepare_row :: "pandas \<Rightarrow> string set \<Rightarrow> row \<Rightarrow> row" where
  "prepare_row L C r =
     row_time_keys (row_is_valid L C (row_net_profit C
       (fold (row_numeric L C) numeric_columns
          ((if ''registered_date'' \<in> C then row_date L ''registered_date'' else id)
             (row_date L ''order_date'' r)))))"

lemma rows_parse_date: "rows (parse_date_column L c df) = map (row_date L c) (rows df)"
  by (simp add: parse_date_column_def rows_set_column row_date_def)

lemma cols_parse_date: "set (columns (parse_date_column L c df)) = insert c (set (columns df))"
  by (simp add: parse_date_column_def cols_set_column)

lemma cols_coerce_numeric: "set (columns (coerce_numeric L c df)) = set (columns df)"
  by (auto simp: coerce_numeric_def cols_set_column)

lemma rows_coerce_numeric:
  "rows (coerce_numeric L c df) = map (row_numeric L (set (columns df)) c) (rows df)"
  by (cases "c \<in> set (columns df)")
    (simp_all add: coerce_numeric_def rows_set_column row_numeric_def [abs_def])

lemma cols_fold_coerce: "set (columns (fold (coerce_numeric L) cs df)) = set (columns df)"
  by (induction cs arbitrary: df) (simp_all add: cols_coerce_numeric)

lemma rows_fold_coerce:
  "rows (fold (coerce_numeric L) cs df) = map (fold (row_numeric L (set (columns df))) cs) (rows df)"
  by (induction cs arbitrary: df) (simp_all add: cols_coerce_numeric rows_coerce_numeric o_def)

lemma rows_net_profit:
  "rows (compute_net_profit df) = map (row_net_profit (set (columns df))) (rows df)"
  by (cases "''before_discount'' \<in> set (columns df) \<and> ''cogs'' \<in> set (columns df)
       \<and> ''qty_ordered'' \<in> set (columns df)")
    (simp_all only: compute_net_profit_def rows_set_column row_net_profit_def [abs_def]
      df_get0_def row_get0_def list.pred_inject(2) list.pred_inject(1) simp_thms if_True if_False)

lemma cols_net_profit:
  "set (columns (compute_net_profit df)) = insert ''net_profit'' (set (columns df))"
  by (simp add: compute_net_profit_def cols_set_column)

lemma rows_is_valid:
  "rows (coerce_is_valid L df) = map (row_is_valid L (set (columns df))) (rows df)"
  by (cases "''is_valid'' \<in> set (columns df)")
    (simp_all add: coerce_is_valid_def rows_set_column row_is_valid_def [abs_def])

lemma cols_is_valid: "set (columns (coerce_is_valid L df)) = set (columns df)"
  by (auto simp: coerce_is_valid_def cols_set_column)

lemma rows_time_keys: "rows (time_keys df) = map row_time_keys (rows df)"
  by (simp add: time_keys_def rows_set_column row_time_keys_def o_def)

lemma cols_time_keys:
  "set (columns (time_keys df)) = set (columns df) \<union> {''year'', ''month'', ''month_name''}"
  by (auto simp: time_keys_def cols_set_column)

lemma row_is_valid_net_profit_cong:
  "row_is_valid L (insert ''net_profit'' C) = row_is_valid L C"
  by (simp add: row_is_valid_def fun_eq_iff)

lemma rows_prepare:
  assumes "''order_date'' \<in> set (columns df0)"
  shows "rows (prepare L df0) = map (prepare_row L (set (columns df0))) (rows df0)"
proof (cases "''registered_date'' \<in> set (columns df0)")
  case True
  then show ?thesis
    using assms
    by (simp add: prepare_def Let_def rows_time_keys rows_is_valid cols_net_profit
        rows_net_profit cols_fold_coerce rows_fold_coerce cols_parse_date rows_parse_date
        insert_absorb prepare_row_def o_def row_is_valid_net_profit_cong)
next
  case False
  then show ?thesis
    using assms
    by (simp add: prepare_def Let_def rows_time_keys rows_is_valid cols_net_profit
        rows_net_profit cols_fold_coerce rows_fold_coerce cols_parse_date rows_parse_date
        insert_absorb prepare_row_def o_def row_is_valid_net_profit_cong)
qed

lemma cols_prepare:
  assumes "''order_date'' \<in> set (columns df0)"
  shows "set (columns (prepare L df0)) =
     set (columns df0) \<union> {''net_profit'', ''year'', ''month'', ''month_name''}"
  using assms
  by (auto simp add: prepare_def Let_def cols_time_keys cols_is_valid cols_net_profit
      cols_fold_coerce cols_parse_date)


lemma row_numeric_apply:
  "row_numeric L C c r c' =
     (if c' = c \<and> c \<in> C then Num (fillna0 (to_numeric L (r c))) else r c')"
  by (simp add: row_numeric_def)

lemma fold_row_numeric_apply:
  "distinct cs \<Longrightarrow>
   fold (row_numeric L C) cs r c =
     (if c \<in> set cs \<and> c \<in> C then Num (fillna0 (to_numeric L (r c))) else r c)"
proof (induction cs arbitrary: r)
  case Nil
  then show ?case by simp
next
  case (Cons a cs)
  then show ?case
    by (auto simp: row_numeric_apply)
qed

lemma distinct_numeric_columns: "distinct numeric_columns"
  by (simp add: numeric_columns_def)

definition coerced :: "pandas \<Rightarrow> string set \<Rightarrow> row \<Rightarrow> row" where
  "coerced L C r =
     fold (row_numeric L C) numeric_columns
       ((if ''registered_date'' \<in> C then row_date L ''registered_date'' else id)
          (row_date L ''order_date'' r))"

lemma coerced_apply:
  "coerced L C r c =
     (let r0 = (if ''registered_date'' \<in> C then row_date L ''registered_date'' else id)
                 (row_date L ''order_date'' r)
      in if c \<in> set numeric_columns \<and> c \<in> C then Num (fillna0 (to_numeric L (r0 c))) else r0 c)"
  by (simp add: coerced_def fold_row_numeric_apply distinct_numeric_columns Let_def)

lemma coerced_numeric:
  "c \<in> set numeric_columns \<Longrightarrow> c \<in> C \<Longrightarrow> coerced L C r c = Num (fillna0 (to_numeric L (r c)))"
  by (auto simp: coerced_apply row_date_def numeric_columns_def Let_def)

lemma coerced_order_date: "coerced L C r ''order_date'' = to_datetime L (r ''order_date'')"
  by (simp add: coerced_apply row_date_def numeric_columns_def Let_def)

lemma coerced_other:
  "c \<notin> set numeric_columns \<Longrightarrow> c \<noteq> ''order_date'' \<Longrightarrow> c \<noteq> ''registered_date'' \<Longrightarrow>
   coerced L C r c = r c"
  by (simp add: coerced_apply row_date_def Let_def)

lemma prepare_row_coerced:
  "prepare_row L C r = row_time_keys (row_is_valid L C (row_net_profit C (coerced L C r)))"
  by (simp add: prepare_row_def coerced_def)

lemma prepare_row_order_date:
  "prepare_row L C r ''order_date'' = to_datetime L (r ''order_date'')"
  by (simp add: prepare_row_coerced row_time_keys_def row_is_valid_def row_net_profit_def
      coerced_order_date)

lemma prepare_row_year: "prepare_row L C r ''year'' = dt_year (prepare_row L C r ''order_date'')"
  by (simp add: prepare_row_coerced row_time_keys_def)

lemma prepare_row_month:
  "prepare_row L C r ''month'' = dt_month (prepare_row L C r ''order_date'')"
  by (simp add: prepare_row_coerced row_time_keys_def)

lemma prepare_row_month_name:
  "prepare_row L C r ''month_name'' = dt_strftime_Ym (prepare_row L C r ''order_date'')"
  by (simp add: prepare_row_coerced row_time_keys_def)

lemma prepare_row_is_valid:
  "''is_valid'' \<in> C \<Longrightarrow>
   prepare_row L C r ''is_valid'' =
     Num (of_int (astype_int (fillna0 (to_numeric L (r ''is_valid'')))))"
  by (simp add: prepare_row_coerced row_time_keys_def row_is_valid_def row_net_profit_def
      coerced_other numeric_columns_def)

lemma prepare_row_numeric:
  "c \<in> set numeric_columns \<Longrightarrow> c \<in> C \<Longrightarrow>
   prepare_row L C r c = Num (fillna0 (to_numeric L (r c)))"
  by (auto simp add: prepare_row_coerced row_time_keys_def row_is_valid_def row_net_profit_def
      coerced_numeric numeric_columns_def)

lemma prepare_row_net_profit:
  "prepare_row L C r ''net_profit'' =
     (let p = prepare_row L C r in
      if ''before_discount'' \<in> C \<and> ''cogs'' \<in> C \<and> ''qty_ordered'' \<in> C
      then cell_sub (p ''before_discount'') (cell_mul (p ''cogs'') (p ''qty_ordered''))
      else cell_sub (cell_mul (row_get0 C ''price'' p) (row_get0 C ''qty_ordered'' p))
                    (cell_mul (row_get0 C ''cogs'' p) (row_get0 C ''qty_ordered'' p)))"
  by (simp add: prepare_row_coerced row_time_keys_def row_is_valid_def row_net_profit_def
      row_get0_def Let_def)

lemma prepare_row_other:
  "c \<notin> set numeric_columns \<Longrightarrow>
   c \<notin> {''order_date'', ''registered_date'', ''net_profit'', ''is_valid'', ''year'', ''month'',
          ''month_name''} \<Longrightarrow>
   prepare_row L C r c = r c"
  by (simp add: prepare_row_coerced row_time_keys_def row_is_valid_def row_net_profit_def
      coerced_other)

lemma load_data_Inr:
  "load_data L raw = Inr T \<longleftrightarrow>
     ''order_date'' \<in> set (columns (strip_columns raw)) \<and>
     find (\<lambda>c. duplicated c (columns (strip_columns raw))) read_columns = None \<and>
     T = prepare L (strip_columns raw)"
  by (auto simp: load_data_def Let_def split: option.splits)

lemma distinct_not_duplicated: "distinct cols \<Longrightarrow> \<not> duplicated c cols"
proof -
  assume "distinct cols"
  then have "length (filter (\<lambda>n. n = c) cols) \<le> 1"
    by (induction cols) (auto simp: filter_empty_conv)
  then show ?thesis
    by (simp add: duplicated_def)
qed

lemma load_data_distinct:
  assumes "strip_columns raw = df" and "''order_date'' \<in> set (columns df)"
    and "distinct (columns df)"
  shows "load_data L raw = Inr (prepare L df)"
  using assms by (simp add: load_data_Inr find_None_iff distinct_not_duplicated)

lemma rows_load_data:
  assumes "load_data L raw = Inr T"
  shows "rows T = map (prepare_row L (set (columns (strip_columns raw)))) (rows (strip_columns raw))"
  using assms by (simp add: load_data_Inr rows_prepare)

lemma cols_load_data:
  assumes "load_data L raw = Inr T"
  shows "set (columns T) =
     set (columns (strip_columns raw)) \<union> {''net_profit'', ''year'', ''month'', ''month_name''}"
  using assms by (simp add: load_data_Inr cols_prepare)

lemma cell_numeric_prepared:
  assumes "load_data L raw = Inr T" and "r \<in> set (rows T)"
    and "c \<in> set numeric_columns" and "c \<in> set (columns T)"
  shows "\<exists>x. r c = Num x"
proof -
  let ?C = "set (columns (strip_columns raw))"
  from assms(2) obtain r0 where r: "r = prepare_row L ?C r0"
    unfolding rows_load_data[OF assms(1)] by auto
  from assms(3,4) have "c \<in> ?C"
    unfolding cols_load_data[OF assms(1)] by (auto simp: numeric_columns_def)
  with assms(3) r show ?thesis
    by (simp add: prepare_row_numeric)
qed

lemma length_rows_load_data:
  assumes "load_data L raw = Inr T"
  shows "length (rows T) = length (rows raw)"
  unfolding rows_load_data[OF assms] by (simp add: strip_columns_def)

lemma nth_rows_load_data:
  assumes "load_data L raw = Inr T" and "i < length (rows T)"
  shows "rows T ! i = prepare_row L (set (columns (strip_columns raw))) (rows (strip_columns raw) ! i)"
  using assms(2) unfolding rows_load_data[OF assms(1)] by simp

lemma astype_int_01: "(astype_int x = 0 \<or> astype_int x = 1) \<longleftrightarrow> (- 1 < x \<and> x < 2)"
  unfolding astype_int_def by (cases "0 \<le> x") (simp_all, linarith+)

section \<open>Example data\<close>

text \<open>
  The two transactions of the specification's example scenario, as a raw table, and a
  pandas that reads ISO dates (\<open>YYYY-MM-DD\<close>) and no other text, and whose sort keeps
  equal values in their order.
\<close>

definition digit_val :: "char \<Rightarrow> nat option" where
  "digit_val c = (if CHR ''0'' \<le> c \<and> c \<le> CHR ''9'' then Some (of_char c - 48) else None)"

fun number_of :: "string \<Rightarrow> nat option" where
  "number_of [] = Some 0"
| "number_of (c # cs) =
     (case (digit_val c, number_of cs) of
        (Some d, Some n) \<Rightarrow> Some (d * 10 ^ length cs + n)
      | _ \<Rightarrow> None)"

definition iso_date :: "cell \<Rightarrow> (nat \<times> nat \<times> nat) option" where
  "iso_date c =
     (case c of
        Txt s \<Rightarrow>
          (if length s = 10 \<and> s ! 4 = CHR ''-'' \<and> s ! 7 = CHR ''-''
           then (case (number_of (take 4 s), number_of (take 2 (drop 5 s)), number_of (drop 8 s)) of
                   (Some y, Some m, Some d) \<Rightarrow> Some (y, m, d)
                 | _ \<Rightarrow> None)
           else None)
      | _ \<Rightarrow> None)"

definition stable_argsort_desc :: "real list \<Rightarrow> nat list" where
  "stable_argsort_desc vs = map snd (sort_key (\<lambda>p. - fst p) (zip vs [0..<length vs]))"

definition L0 :: pandas where
  "L0 = \<lparr>parse_datetime = iso_date, parse_numeric = (\<lambda>_. None), str_of = (\<lambda>_. []),
          argsort_desc = stable_argsort_desc\<rparr>"

definition ex_row1 :: row where
  "ex_row1 = (\<lambda>_. NA)(''id'' := Num 1, ''order_date'' := Txt ''2022-01-15'',
     ''category'' := Txt ''Mobile'', ''payment_method'' := Txt ''JazzWallet'',
     ''qty_ordered'' := Num 2, ''before_discount'' := Num 100, ''cogs'' := Num 20,
     ''is_valid'' := Num 1)"

definition ex_row2 :: row where
  "ex_row2 = (\<lambda>_. NA)(''id'' := Num 2, ''order_date'' := Txt ''2022-02-01'',
     ''category'' := Txt ''Laptop'', ''payment_method'' := Txt ''Card'',
     ''qty_ordered'' := Num 1, ''before_discount'' := Num 500, ''cogs'' := Num 300,
     ''is_valid'' := Num 1)"

definition ex_columns :: "string list" where
  "ex_columns = [''id'', ''order_date'', ''category'', ''payment_method'', ''qty_ordered'',
       ''before_discount'', ''cogs'', ''is_valid'']"

definition ex_raw :: frame where
  "ex_raw = \<lparr>columns = ex_columns, rows = [ex_row1, ex_row2]\<rparr>"

lemma str_strip_ex: "map str_strip ex_columns = ex_columns"
  by (simp add: ex_columns_def str_strip_def is_space_def)

lemma iso1: "iso_date (Txt ''2022-01-15'') = Some (2022, 1, 15)"
  by (simp add: iso_date_def digit_val_def)

lemma iso2: "iso_date (Txt ''2022-02-01'') = Some (2022, 2, 1)"
  by (simp add: iso_date_def digit_val_def)



lemma rename_row_ex:
  "rename_row ex_columns r c = (if c \<in> set ex_columns then r c else NA)"
  by (simp add: rename_row_def ex_columns_def str_strip_def is_space_def)



lemma ex_rename1: "rename_row ex_columns ex_row1 = ex_row1"
  by (rule ext, simp only: rename_row_ex) (simp add: ex_columns_def ex_row1_def)

lemma ex_rename2: "rename_row ex_columns ex_row2 = ex_row2"
  by (rule ext, simp only: rename_row_ex) (simp add: ex_columns_def ex_row2_def)

lemma ex_strip: "strip_columns ex_raw = ex_raw"
  by (simp add: strip_columns_def ex_raw_def str_strip_ex ex_rename1 ex_rename2)

lemma ex_od: "''order_date'' \<in> set (columns ex_raw)"
  by (simp add: ex_raw_def ex_columns_def)

lemma ex_load: "load_data L0 ex_raw = Inr (prepare L0 ex_raw)"
  by (rule load_data_distinct[OF ex_strip ex_od]) (simp add: ex_raw_def ex_columns_def)

lemma ex_rows:
  "rows (prepare L0 ex_raw) =
     [prepare_row L0 (set ex_columns) ex_row1, prepare_row L0 (set ex_columns) ex_row2]"
  by (simp add: rows_prepare[OF ex_od]) (simp add: ex_raw_def)

lemma ex_cols:
  "set (columns (prepare L0 ex_raw)) =
     set ex_columns \<union> {''net_profit'', ''year'', ''month'', ''month_name''}"
  by (simp add: cols_prepare[OF ex_od]) (simp add: ex_raw_def)

text \<open>A table with a validity flag that is neither 0 nor 1.\<close>

definition two_raw :: frame where
  "two_raw =
     \<lparr>columns = [''order_date'', ''is_valid''],
      rows = [(\<lambda>_. NA)(''order_date'' := Txt ''2022-01-15'', ''is_valid'' := Num 2)]\<rparr>"

lemma two_strip: "strip_columns two_raw = two_raw"
  by (simp add: strip_columns_def two_raw_def str_strip_def is_space_def rename_row_def fun_eq_iff)

lemma two_od: "''order_date'' \<in> set (columns two_raw)"
  by (simp add: two_raw_def)

lemma two_load: "load_data L0 two_raw = Inr (prepare L0 two_raw)"
  by (rule load_data_distinct[OF two_strip two_od]) (simp add: two_raw_def)

section \<open>Net profit\<close>

definition value_or_0 :: "frame \<Rightarrow> string \<Rightarrow> row \<Rightarrow> real" where
  "value_or_0 df c r = (if c \<in> set (columns df) then num (r c) else 0)"

text \<open>
  Claim C2. \<open>load_data\<close> computes \<open>net_profit\<close> by one of two formulas, and which one
  depends on the columns of the table only, not on the row: when \<open>before_discount\<close>,
  \<open>cogs\<close> and \<open>qty_ordered\<close> are all present, every row has
  \<open>net_profit = before_discount - cogs * qty_ordered\<close>; otherwise every row has
  \<open>net_profit = price * qty_ordered - cogs * qty_ordered\<close>, where an absent column
  counts as 0. The columns that enter the formulas are numbers in every row (they were
  coerced before), and such a column is present after the preparation exactly when the
  raw table has it under its trimmed name.
\<close>

theorem net_profit_two_branches:
  assumes "load_data L raw = Inr T" and "r \<in> set (rows T)"
  shows "(\<forall>c \<in> set numeric_columns. c \<in> set (columns T) \<longrightarrow> (\<exists>x. r c = Num x)) \<and>
         (\<forall>c \<in> set numeric_columns. c \<in> set (columns T) \<longleftrightarrow> c \<in> str_strip ` set (columns raw)) \<and>
         r ''net_profit'' =
           (if ''before_discount'' \<in> set (columns T) \<and> ''cogs'' \<in> set (columns T)
               \<and> ''qty_ordered'' \<in> set (columns T)
            then Num (num (r ''before_discount'') - num (r ''cogs'') * num (r ''qty_ordered''))
            else Num (value_or_0 T ''price'' r * value_or_0 T ''qty_ordered'' r
                      - value_or_0 T ''cogs'' r * value_or_0 T ''qty_ordered'' r))"
proof (intro conjI)
  let ?C = "set (columns (strip_columns raw))"
  have mem: "c \<in> set (columns T) \<longleftrightarrow> c \<in> ?C" if "c \<in> set numeric_columns" for c
    using that unfolding cols_load_data[OF assms(1)] by (auto simp: numeric_columns_def)
  show "\<forall>c \<in> set numeric_columns. c \<in> set (columns T) \<longrightarrow> (\<exists>x. r c = Num x)"
    using assms cell_numeric_prepared by blast
  show "\<forall>c \<in> set numeric_columns. c \<in> set (columns T) \<longleftrightarrow> c \<in> str_strip ` set (columns raw)"
    using mem by (simp add: strip_columns_def)
  from assms(2) obtain r0 where r: "r = prepare_row L ?C r0"
    unfolding rows_load_data[OF assms(1)] by auto
  have nm: "\<exists>x. r c = Num x" if "c \<in> set numeric_columns" "c \<in> ?C" for c
    using that r by (simp add: prepare_row_numeric)
  have g0: "row_get0 ?C c r = Num (value_or_0 T c r)" if "c \<in> set numeric_columns" for c
    using nm[OF that] mem[OF that] by (auto simp: row_get0_def value_or_0_def)
  have in_nc: "''before_discount'' \<in> set numeric_columns" "''cogs'' \<in> set numeric_columns"
    "''qty_ordered'' \<in> set numeric_columns" "''price'' \<in> set numeric_columns"
    by (simp_all add: numeric_columns_def)
  have np: "r ''net_profit'' =
      (if ''before_discount'' \<in> ?C \<and> ''cogs'' \<in> ?C \<and> ''qty_ordered'' \<in> ?C
       then cell_sub (r ''before_discount'') (cell_mul (r ''cogs'') (r ''qty_ordered''))
       else cell_sub (cell_mul (row_get0 ?C ''price'' r) (row_get0 ?C ''qty_ordered'' r))
                     (cell_mul (row_get0 ?C ''cogs'' r) (row_get0 ?C ''qty_ordered'' r)))"
    using prepare_row_net_profit[of L ?C r0] by (simp only: Let_def r)
  show "r ''net_profit'' =
           (if ''before_discount'' \<in> set (columns T) \<and> ''cogs'' \<in> set (columns T)
               \<and> ''qty_ordered'' \<in> set (columns T)
            then Num (num (r ''before_discount'') - num (r ''cogs'') * num (r ''qty_ordered''))
            else Num (value_or_0 T ''price'' r * value_or_0 T ''qty_ordered'' r
                      - value_or_0 T ''cogs'' r * value_or_0 T ''qty_ordered'' r))"
  proof -
    have cond: "(''before_discount'' \<in> set (columns T) \<and> ''cogs'' \<in> set (columns T)
               \<and> ''qty_ordered'' \<in> set (columns T)) =
       (''before_discount'' \<in> ?C \<and> ''cogs'' \<in> ?C \<and> ''qty_ordered'' \<in> ?C)"
      by (simp only: mem[OF in_nc(1)] mem[OF in_nc(2)] mem[OF in_nc(3)])
    show ?thesis
    proof (cases "''before_discount'' \<in> ?C \<and> ''cogs'' \<in> ?C \<and> ''qty_ordered'' \<in> ?C")
      case True
      obtain b where b: "r ''before_discount'' = Num b" using nm[OF in_nc(1)] True by auto
      obtain c where c: "r ''cogs'' = Num c" using nm[OF in_nc(2)] True by auto
      obtain q where q: "r ''qty_ordered'' = Num q" using nm[OF in_nc(3)] True by auto
      have "r ''net_profit'' = Num (b - c * q)"
        using np by (simp only: if_P[OF True] b c q cell_mul.simps cell_sub.simps)
      then show ?thesis
        by (simp only: cond if_P[OF True] b c q num.simps)
    next
      case False
      have "r ''net_profit'' =
          Num (value_or_0 T ''price'' r * value_or_0 T ''qty_ordered'' r
               - value_or_0 T ''cogs'' r * value_or_0 T ''qty_ordered'' r)"
        using np
        by (simp only: if_not_P[OF False] g0[OF in_nc(1)] g0[OF in_nc(2)] g0[OF in_nc(3)]
            g0[OF in_nc(4)] cell_mul.simps cell_sub.simps)
      then show ?thesis
        by (simp only: cond if_not_P[OF False])
    qed
  qed
qed

theorem net_profit_two_branches_witness:
  "load_data L0 ex_raw = Inr (prepare L0 ex_raw) \<and>
   hd (rows (prepare L0 ex_raw)) \<in> set (rows (prepare L0 ex_raw)) \<and>
   hd (rows (prepare L0 ex_raw)) ''net_profit'' = Num 60"
proof -
  let ?T = "prepare L0 ex_raw"
  let ?r = "prepare_row L0 (set ex_columns) ex_row1"
  have h: "hd (rows ?T) \<in> set (rows ?T)" by (simp add: ex_rows)
  have hd: "hd (rows ?T) = ?r" by (simp add: ex_rows)
  have inC: "''before_discount'' \<in> set ex_columns" "''cogs'' \<in> set ex_columns"
    "''qty_ordered'' \<in> set ex_columns"
    by (simp_all add: ex_columns_def)
  have vals: "?r ''before_discount'' = Num 100" "?r ''cogs'' = Num 20" "?r ''qty_ordered'' = Num 2"
    using inC
    by (simp_all add: prepare_row_numeric numeric_columns_def to_numeric_def fillna0_def
        ex_row1_def)
  have "?r ''net_profit'' = Num 60"
    using net_profit_two_branches[OF ex_load h] inC
    by (simp add: hd ex_cols vals)
  then show ?thesis
    using ex_load h by (simp add: hd)
qed

section \<open>The validity flag\<close>

text \<open>
  Claim C7, as amended. When the raw table has a validity column, the preparation keeps
  every row, and the flag of a row is an integer: 0 when the raw cell is missing or not
  numeric, and the raw number with its fraction cut off (towards zero) otherwise, for
  numbers within the range of \<open>int64\<close>. It is 0 or 1 exactly when the raw cell is
  missing, not numeric, or a number strictly between -1 and 2; no other number is mapped
  into 0 or 1.
\<close>

theorem validity_flag_truncated:
  assumes "load_data L raw = Inr T" and "''is_valid'' \<in> set (columns (strip_columns raw))"
    and "i < length (rows T)"
  shows "length (rows T) = length (rows raw) \<and>
    (let v = to_numeric L ((rows (strip_columns raw) ! i) ''is_valid'');
         flag = (rows T ! i) ''is_valid''
     in (v = None \<longrightarrow> flag = Num 0) \<and>
        (\<forall>x. v = Some x \<longrightarrow> \<bar>x\<bar> < 2 ^ 63 \<longrightarrow> flag = Num (of_int (astype_int x))) \<and>
        ((flag = Num 0 \<or> flag = Num 1) \<longleftrightarrow>
           (case v of None \<Rightarrow> True | Some x \<Rightarrow> - 1 < x \<and> x < 2)))"
proof -
  let ?v = "to_numeric L ((rows (strip_columns raw) ! i) ''is_valid'')"
  have flag: "(rows T ! i) ''is_valid'' = Num (of_int (astype_int (fillna0 ?v)))"
    unfolding nth_rows_load_data[OF assms(1,3)] using assms(2) by (rule prepare_row_is_valid)
  show ?thesis
  proof (cases ?v)
    case None
    then show ?thesis
      by (simp add: flag length_rows_load_data[OF assms(1)] fillna0_def astype_int_def Let_def)
  next
    case (Some x)
    have "(real_of_int (astype_int x) = 0 \<or> real_of_int (astype_int x) = 1) \<longleftrightarrow> (- 1 < x \<and> x < 2)"
      using astype_int_01[of x] by (metis of_int_eq_0_iff of_int_eq_1_iff)
    then show ?thesis
      using Some by (simp add: flag length_rows_load_data[OF assms(1)] fillna0_def Let_def)
  qed
qed


theorem validity_flag_truncated_witness:
  "load_data L0 ex_raw = Inr (prepare L0 ex_raw) \<and>
   ''is_valid'' \<in> set (columns (strip_columns ex_raw)) \<and>
   0 < length (rows (prepare L0 ex_raw)) \<and>
   (rows (prepare L0 ex_raw) ! 0) ''is_valid'' = Num 1"
proof -
  let ?T = "prepare L0 ex_raw"
  have c: "''is_valid'' \<in> set (columns (strip_columns ex_raw))"
    unfolding ex_strip by (simp add: ex_raw_def ex_columns_def)
  have n: "0 < length (rows ?T)"
    using length_rows_load_data[OF ex_load] by (simp add: ex_raw_def)
  have "(rows (strip_columns ex_raw) ! 0) ''is_valid'' = Num 1"
    unfolding ex_strip by (simp add: ex_raw_def ex_row1_def)
  then have v: "to_numeric L0 ((rows (strip_columns ex_raw) ! 0) ''is_valid'') = Some 1"
    by (simp add: to_numeric_def)
  have "(rows ?T ! 0) ''is_valid'' = Num 1"
    using validity_flag_truncated[OF ex_load c n] by (simp add: v Let_def astype_int_def)
  then show ?thesis
    using ex_load c n by simp
qed

text \<open>
  The claim as first stated (every flag is 0 or 1 after the preparation) fails on a raw
  flag 2: \<open>astype(int)\<close> leaves it 2.
\<close>

theorem validity_flag_two_counterexample:
  "load_data L0 two_raw = Inr (prepare L0 two_raw) \<and>
   map (\<lambda>r. r ''is_valid'') (rows (prepare L0 two_raw)) = [Num 2]"
  using two_load
  by (simp add: rows_prepare[OF two_od])
     (simp add: prepare_row_is_valid to_numeric_def fillna0_def astype_int_def two_raw_def)

section \<open>The filters in closed form\<close>

text \<open>
  The filters are a conjunction: a row passes when its year is the selected one, its
  category and its payment method are the selected ones unless \<open>All\<close> is selected,
  and its validity flag is 1 for \<open>Valid\<close> and 0 for \<open>Not Valid\<close>. \<open>needed\<close> lists the
  columns that the filters read, in the order in which they read them.
\<close>

definition passes :: "pandas \<Rightarrow> selection \<Rightarrow> row \<Rightarrow> bool" where
  "passes L s r =
     (r ''year'' = Num (of_int (selected_year s)) \<and>
      (selected_category s \<noteq> ''All'' \<longrightarrow> astype_str L (r ''category'') = selected_category s) \<and>
      (selected_payment s \<noteq> ''All'' \<longrightarrow>
         astype_str L (r ''payment_method'') = selected_payment s) \<and>
      (value_transaction s = ''Valid'' \<longrightarrow> r ''is_valid'' = Num 1) \<and>
      (value_transaction s = ''Not Valid'' \<longrightarrow> r ''is_valid'' = Num 0))"

definition needed :: "selection \<Rightarrow> string list" where
  "needed s =
     [''year''] @
     (if selected_category s \<noteq> ''All'' then [''category''] else []) @
     (if selected_payment s \<noteq> ''All'' then [''payment_method''] else []) @
     (if value_transaction s = ''Valid'' \<or> value_transaction s = ''Not Valid''
      then [''is_valid''] else [])"

lemma require_Nil: "require [] df k = k"
  by (simp add: require_def)

lemma require_Cons:
  "require (c # cs) df k = (if c \<in> set (columns df) then require cs df k else Inl (KeyError c))"
  by (simp add: require_def)

lemma require_append: "require (cs @ ds) df k = require cs df (require ds df k)"
  by (induction cs) (simp_all add: require_Nil require_Cons)

lemma require_all: "set cs \<subseteq> set (columns df) \<Longrightarrow> require cs df k = k"
  by (induction cs) (simp_all add: require_Nil require_Cons)

lemma require_Inr:
  "require cs df (Inr v) = Inr w \<longleftrightarrow> set cs \<subseteq> set (columns df) \<and> w = v"
  by (induction cs) (auto simp: require_Nil require_Cons)

lemma require_missing:
  "\<not> set cs \<subseteq> set (columns df) \<Longrightarrow> \<exists>c. require cs df k = Inl (KeyError c)"
  by (induction cs) (auto simp: require_Nil require_Cons)

lemma require_rows_cong: "columns df' = columns df \<Longrightarrow> require cs df' k = require cs df k"
  by (simp add: require_def)

lemma select_rows_require:
  "select_rows c p df = require [c] df (Inr (df\<lparr>rows := filter (\<lambda>r. p (r c)) (rows df)\<rparr>))"
  by (simp add: select_rows_def require_Cons require_Nil)

lemma and_then_Inr [simp]: "and_then (Inr v) f = f v"
  by (simp add: and_then_def)

lemma and_then_Inl [simp]: "and_then (Inl e) f = Inl e"
  by (simp add: and_then_def)

lemma and_then_require: "and_then (require cs df k) f = require cs df (and_then k f)"
  by (induction cs) (simp_all add: require_Nil require_Cons)

lemma and_then_assoc:
  "and_then (and_then x f) g = and_then x (\<lambda>v. and_then (f v) g)"
  by (cases x) simp_all

lemma filter_step:
  "and_then (require cs df (Inr (df\<lparr>rows := filter P (rows df)\<rparr>)))
            (\<lambda>d. if b then select_rows c p d else Inr d) =
   require (cs @ (if b then [c] else [])) df
     (Inr (df\<lparr>rows := filter (\<lambda>r. P r \<and> (b \<longrightarrow> p (r c))) (rows df)\<rparr>))"
  by (cases b)
     (simp_all add: and_then_require require_append select_rows_require require_Cons require_Nil
       conj_commute)

lemma year_step:
  "select_rows ''year'' p df =
     require [''year''] df (Inr (df\<lparr>rows := filter (\<lambda>r. p (r ''year'')) (rows df)\<rparr>))"
  by (rule select_rows_require)

lemma validity_step:
  "(if vt = ''Valid'' then select_rows ''is_valid'' (\<lambda>v. v = Num 1) d
    else if vt = ''Not Valid'' then select_rows ''is_valid'' (\<lambda>v. v = Num 0) d
    else Inr d) =
   (if vt = ''Valid'' \<or> vt = ''Not Valid''
    then select_rows ''is_valid'' (\<lambda>v. if vt = ''Valid'' then v = Num 1 else v = Num 0) d
    else Inr d)"
  by simp

lemma apply_filters_closed:
  "apply_filters L df s =
     require (needed s) df (Inr (df\<lparr>rows := filter (passes L s) (rows df)\<rparr>))"
proof -
  have "passes L s =
     (\<lambda>r. ((r ''year'' = Num (of_int (selected_year s)) \<and>
           (selected_category s \<noteq> ''All'' \<longrightarrow> astype_str L (r ''category'') = selected_category s)) \<and>
           (selected_payment s \<noteq> ''All'' \<longrightarrow>
              astype_str L (r ''payment_method'') = selected_payment s)) \<and>
           (value_transaction s = ''Valid'' \<or> value_transaction s = ''Not Valid'' \<longrightarrow>
              (if value_transaction s = ''Valid'' then r ''is_valid'' = Num 1
               else r ''is_valid'' = Num 0)))"
    by (auto simp: passes_def fun_eq_iff)
  then show ?thesis
    unfolding apply_filters_def validity_step year_step needed_def
    by (simp only: and_then_assoc[symmetric] filter_step append_assoc)
qed


lemma apply_filters_Inr:
  "apply_filters L df s = Inr V \<longleftrightarrow>
     set (needed s) \<subseteq> set (columns df) \<and> V = df\<lparr>rows := filter (passes L s) (rows df)\<rparr>"
  by (simp add: apply_filters_closed require_Inr)

definition year_only :: "selection \<Rightarrow> selection" where
  "year_only s =
     \<lparr>selected_year = selected_year s, selected_category = ''All'',
      selected_payment = ''All'', value_transaction = ''All''\<rparr>"

lemma require_absent:
  "require cs df k = require (filter (\<lambda>c. c \<notin> set (columns df)) cs) df k"
  by (induction cs) (simp_all add: require_Nil require_Cons)

lemma refilter:
  assumes "apply_filters L T s = Inr V"
    and "filter (\<lambda>c. c \<notin> set (columns T)) (needed s') =
         filter (\<lambda>c. c \<notin> set (columns T)) (needed p)"
    and "\<And>r. passes L s' r \<longleftrightarrow> passes L s r \<and> passes L p r"
  shows "apply_filters L T s' = apply_filters L V p"
proof -
  from assms(1) have V: "V = T\<lparr>rows := filter (passes L s) (rows T)\<rparr>"
    by (simp add: apply_filters_Inr)
  have cols: "columns V = columns T"
    by (simp add: V)
  have "passes L s' = (\<lambda>r. passes L s r \<and> passes L p r)"
    using assms(3) by (simp add: fun_eq_iff)
  then have rws: "V\<lparr>rows := filter (passes L p) (rows V)\<rparr> = T\<lparr>rows := filter (passes L s') (rows T)\<rparr>"
    by (simp add: V conj_commute)
  have "apply_filters L V p = require (needed p) T (Inr (T\<lparr>rows := filter (passes L s') (rows T)\<rparr>))"
    unfolding apply_filters_closed rws by (rule require_rows_cong[OF cols])
  also have "\<dots> = require (needed s') T (Inr (T\<lparr>rows := filter (passes L s') (rows T)\<rparr>))"
    by (subst (1 2) require_absent) (simp only: assms(2))
  finally show ?thesis
    by (simp add: apply_filters_closed)
qed

definition sel_2022 :: selection where
  "sel_2022 =
     \<lparr>selected_year = 2022, selected_category = ''All'', selected_payment = ''All'',
      value_transaction = ''All''\<rparr>"

definition ex_view :: "selection \<Rightarrow> frame" where
  "ex_view s = (prepare L0 ex_raw)\<lparr>rows := filter (passes L0 s) (rows (prepare L0 ex_raw))\<rparr>"

lemma ex_filter_2022: "apply_filters L0 (prepare L0 ex_raw) sel_2022 = Inr (ex_view sel_2022)"
  unfolding apply_filters_Inr ex_view_def by (simp add: needed_def sel_2022_def ex_cols)

text \<open>
  Claim C4. A filtered view has the columns of the table and, in their order, exactly the
  rows of the table that pass the filters, so its rows are among the rows of the table
  (the table itself is a value and is not changed). Adding one more predicate to a
  selection (a category, a payment method or a validity, where the selection had none)
  and filtering the table gives the same result, view or \<open>KeyError\<close>, as filtering the
  view that was already filtered with that predicate alone (with the year, which every
  selection carries).
\<close>

theorem filter_is_restriction:
  assumes "apply_filters L T s = Inr V"
  shows "columns V = columns T \<and> rows V = filter (passes L s) (rows T) \<and>
         mset (rows V) \<subseteq># mset (rows T) \<and>
         (selected_category s = ''All'' \<longrightarrow>
            apply_filters L T (s\<lparr>selected_category := c\<rparr>) =
            apply_filters L V ((year_only s)\<lparr>selected_category := c\<rparr>)) \<and>
         (selected_payment s = ''All'' \<longrightarrow>
            apply_filters L T (s\<lparr>selected_payment := p\<rparr>) =
            apply_filters L V ((year_only s)\<lparr>selected_payment := p\<rparr>)) \<and>
         (value_transaction s \<noteq> ''Valid'' \<and> value_transaction s \<noteq> ''Not Valid'' \<longrightarrow>
            apply_filters L T (s\<lparr>value_transaction := v\<rparr>) =
            apply_filters L V ((year_only s)\<lparr>value_transaction := v\<rparr>))"
proof (intro conjI impI)
  from assms have V: "V = T\<lparr>rows := filter (passes L s) (rows T)\<rparr>"
    and sub: "set (needed s) \<subseteq> set (columns T)"
    by (simp_all add: apply_filters_Inr)
  show "columns V = columns T" by (simp add: V)
  show "rows V = filter (passes L s) (rows T)" by (simp add: V)
  show "mset (rows V) \<subseteq># mset (rows T)" by (simp add: V)
  show "apply_filters L T (s\<lparr>selected_category := c\<rparr>) =
        apply_filters L V ((year_only s)\<lparr>selected_category := c\<rparr>)"
    if "selected_category s = ''All''"
  proof (rule refilter[OF assms])
    show "filter (\<lambda>c. c \<notin> set (columns T)) (needed (s\<lparr>selected_category := c\<rparr>)) =
          filter (\<lambda>c. c \<notin> set (columns T)) (needed ((year_only s)\<lparr>selected_category := c\<rparr>))"
      using sub by (auto simp: needed_def year_only_def)
    show "passes L (s\<lparr>selected_category := c\<rparr>) r \<longleftrightarrow>
          passes L s r \<and> passes L ((year_only s)\<lparr>selected_category := c\<rparr>) r" for r
      using that by (auto simp: passes_def year_only_def)
  qed
  show "apply_filters L T (s\<lparr>selected_payment := p\<rparr>) =
        apply_filters L V ((year_only s)\<lparr>selected_payment := p\<rparr>)"
    if "selected_payment s = ''All''"
  proof (rule refilter[OF assms])
    show "filter (\<lambda>c. c \<notin> set (columns T)) (needed (s\<lparr>selected_payment := p\<rparr>)) =
          filter (\<lambda>c. c \<notin> set (columns T)) (needed ((year_only s)\<lparr>selected_payment := p\<rparr>))"
      using sub by (auto simp: needed_def year_only_def)
    show "passes L (s\<lparr>selected_payment := p\<rparr>) r \<longleftrightarrow>
          passes L s r \<and> passes L ((year_only s)\<lparr>selected_payment := p\<rparr>) r" for r
      using that by (auto simp: passes_def year_only_def)
  qed
  show "apply_filters L T (s\<lparr>value_transaction := v\<rparr>) =
        apply_filters L V ((year_only s)\<lparr>value_transaction := v\<rparr>)"
    if "value_transaction s \<noteq> ''Valid'' \<and> value_transaction s \<noteq> ''Not Valid''"
  proof (rule refilter[OF assms])
    show "filter (\<lambda>c. c \<notin> set (columns T)) (needed (s\<lparr>value_transaction := v\<rparr>)) =
          filter (\<lambda>c. c \<notin> set (columns T)) (needed ((year_only s)\<lparr>value_transaction := v\<rparr>))"
      using sub that by (auto simp: needed_def year_only_def)
    show "passes L (s\<lparr>value_transaction := v\<rparr>) r \<longleftrightarrow>
          passes L s r \<and> passes L ((year_only s)\<lparr>value_transaction := v\<rparr>) r" for r
      using that by (auto simp: passes_def year_only_def)
  qed
qed

theorem filter_is_restriction_witness:
  "apply_filters L0 (prepare L0 ex_raw) sel_2022 = Inr (ex_view sel_2022) \<and>
   selected_category sel_2022 = ''All'' \<and>
   columns (ex_view sel_2022) = columns (prepare L0 ex_raw) \<and>
   mset (rows (ex_view sel_2022)) \<subseteq># mset (rows (prepare L0 ex_raw)) \<and>
   apply_filters L0 (prepare L0 ex_raw) (sel_2022\<lparr>selected_category := ''Mobile''\<rparr>) =
   apply_filters L0 (ex_view sel_2022) ((year_only sel_2022)\<lparr>selected_category := ''Mobile''\<rparr>)"
proof -
  have c: "selected_category sel_2022 = ''All''" by (simp add: sel_2022_def)
  show ?thesis
    using filter_is_restriction[OF ex_filter_2022, of "''Mobile''"] ex_filter_2022 c
    by simp
qed

section \<open>A validity filter without a validity column\<close>

text \<open>The example table without its validity column.\<close>

definition no_flag_raw :: frame where
  "no_flag_raw =
     \<lparr>columns = [''id'', ''order_date'', ''category'', ''payment_method'', ''qty_ordered'',
                 ''before_discount'', ''cogs''],
      rows = [ex_row1(''is_valid'' := NA), ex_row2(''is_valid'' := NA)]\<rparr>"

lemma apply_filters_without_flag:
  assumes "''is_valid'' \<notin> set (columns df)"
    and "value_transaction s = ''Valid'' \<or> value_transaction s = ''Not Valid''"
  shows "\<exists>c. apply_filters L df s = Inl (KeyError c)"
proof -
  have "\<not> set (needed s) \<subseteq> set (columns df)"
    using assms by (auto simp: needed_def)
  then show ?thesis
    unfolding apply_filters_closed by (rule require_missing)
qed

lemma no_flag_od: "''order_date'' \<in> set (columns (strip_columns no_flag_raw))"
  by (simp add: strip_columns_def no_flag_raw_def str_strip_def is_space_def)

lemma no_flag_cols:
  "set (columns (prepare L0 (strip_columns no_flag_raw))) =
     {''id'', ''order_date'', ''category'', ''payment_method'', ''qty_ordered'',
      ''before_discount'', ''cogs'', ''net_profit'', ''year'', ''month'', ''month_name''}"
  by (simp add: cols_prepare[OF no_flag_od])
     (auto simp add: strip_columns_def no_flag_raw_def str_strip_def is_space_def)

text \<open>
  Claim C1 does not hold of the code. On the example table without its \<open>is_valid\<close> column,
  selecting \<open>Valid\<close> or \<open>Not Valid\<close> raises \<open>KeyError\<close>: the filter reads
  \<open>df_f['is_valid']\<close> without the test that \<open>load_data\<close> and the JazzWallet query make
  before they read that column. (\<open>apply_filters_without_flag\<close> shows the same of every
  table without the column.)
\<close>

theorem valid_filter_without_flag_raises:
  "and_then (load_data L0 no_flag_raw)
     (\<lambda>T. apply_filters L0 T (sel_2022\<lparr>value_transaction := ''Valid''\<rparr>)) =
     Inl (KeyError ''is_valid'') \<and>
   and_then (load_data L0 no_flag_raw)
     (\<lambda>T. apply_filters L0 T (sel_2022\<lparr>value_transaction := ''Not Valid''\<rparr>)) =
     Inl (KeyError ''is_valid'')"
proof -
  have l: "load_data L0 no_flag_raw = Inr (prepare L0 (strip_columns no_flag_raw))"
    by (rule load_data_distinct[OF refl no_flag_od])
       (simp add: strip_columns_def no_flag_raw_def str_strip_def is_space_def)
  show ?thesis
    unfolding l and_then_Inr apply_filters_closed
    by (simp add: needed_def sel_2022_def require_Cons require_Nil no_flag_cols)
qed

section \<open>Rows without a date\<close>

lemma dt_year_Num: "dt_year c = Num x \<Longrightarrow> c \<noteq> NA"
  by (cases c) simp_all

lemma passes_year: "passes L s r \<Longrightarrow> r ''year'' = Num (of_int (selected_year s))"
  by (simp add: passes_def)

lemma prepared_row_date:
  assumes "load_data L raw = Inr T" and "r \<in> set (rows T)"
  shows "r ''year'' = dt_year (r ''order_date'')"
    and "r ''month'' = dt_month (r ''order_date'')"
    and "r ''month_name'' = dt_strftime_Ym (r ''order_date'')"
    and "r ''order_date'' = NA \<or> (\<exists>y m d. r ''order_date'' = Stamp y m d \<and> in_bounds y m d)"
proof -
  from assms(2) obtain r0 where r: "r = prepare_row L (set (columns (strip_columns raw))) r0"
    unfolding rows_load_data[OF assms(1)] by auto
  show "r ''year'' = dt_year (r ''order_date'')" by (simp only: r prepare_row_year)
  show "r ''month'' = dt_month (r ''order_date'')" by (simp only: r prepare_row_month)
  show "r ''month_name'' = dt_strftime_Ym (r ''order_date'')"
    by (simp only: r prepare_row_month_name)
  show "r ''order_date'' = NA \<or> (\<exists>y m d. r ''order_date'' = Stamp y m d \<and> in_bounds y m d)"
    unfolding r prepare_row_order_date
    by (auto simp: to_datetime_def stamp_or_nat_def split: cell.splits option.splits)
qed

text \<open>
  Claim C10. The preparation keeps every row. A row whose order date does not parse has a
  missing date and a missing year after the preparation, and it is in no filtered view,
  whatever the selection: every row of a view has the selected year and a date. Hence
  removing the rows without a date from the prepared table changes no view, and so
  nothing that is computed from a view.
\<close>

theorem unparsed_dates_never_pass:
  assumes "load_data L raw = Inr T" and "apply_filters L T s = Inr V"
  shows "length (rows T) = length (rows raw) \<and>
         (\<forall>i < length (rows T).
            to_datetime L ((rows (strip_columns raw) ! i) ''order_date'') = NA \<longrightarrow>
              (rows T ! i) ''order_date'' = NA \<and> (rows T ! i) ''year'' = NA \<and>
              rows T ! i \<notin> set (rows V)) \<and>
         (\<forall>r \<in> set (rows V).
            r ''year'' = Num (of_int (selected_year s)) \<and> r ''order_date'' \<noteq> NA) \<and>
         apply_filters L (T\<lparr>rows := filter (\<lambda>r. r ''order_date'' \<noteq> NA) (rows T)\<rparr>) s = Inr V"
proof (intro conjI allI ballI impI)
  from assms(2) have sub: "set (needed s) \<subseteq> set (columns T)"
    and V: "V = T\<lparr>rows := filter (passes L s) (rows T)\<rparr>"
    by (simp_all add: apply_filters_Inr)
  have dated: "r ''order_date'' \<noteq> NA" if "r \<in> set (rows T)" "passes L s r" for r
    using prepared_row_date(1)[OF assms(1) that(1)] passes_year[OF that(2)]
    by (auto dest: dt_year_Num)
  show "length (rows T) = length (rows raw)"
    by (rule length_rows_load_data[OF assms(1)])
  show "r ''year'' = Num (of_int (selected_year s))" if "r \<in> set (rows V)" for r
    using that by (auto simp: V intro: passes_year)
  show "r ''order_date'' \<noteq> NA" if "r \<in> set (rows V)" for r
    using that dated by (simp add: V)
  have "filter (passes L s) (filter (\<lambda>r. r ''order_date'' \<noteq> NA) (rows T)) =
        filter (passes L s) (rows T)"
    using dated by (auto simp: filter_filter intro: filter_cong)
  then show "apply_filters L (T\<lparr>rows := filter (\<lambda>r. r ''order_date'' \<noteq> NA) (rows T)\<rparr>) s = Inr V"
    using sub by (simp add: apply_filters_Inr V)
  fix i
  assume i: "i < length (rows T)"
    and nat: "to_datetime L ((rows (strip_columns raw) ! i) ''order_date'') = NA"
  have mem: "rows T ! i \<in> set (rows T)"
    using i by simp
  show od: "(rows T ! i) ''order_date'' = NA"
    unfolding nth_rows_load_data[OF assms(1) i] prepare_row_order_date by (rule nat)
  show "(rows T ! i) ''year'' = NA"
    using prepared_row_date(1)[OF assms(1) mem] od by simp
  show "rows T ! i \<notin> set (rows V)"
    using dated[OF mem] od by (auto simp: V)
qed

definition nat_raw :: frame where
  "nat_raw =
     \<lparr>columns = [''id'', ''order_date''],
      rows = [(\<lambda>_. NA)(''id'' := Num 1, ''order_date'' := Txt ''2022-01-15''),
              (\<lambda>_. NA)(''id'' := Num 2, ''order_date'' := Txt ''unknown'')]\<rparr>"

lemma nat_strip: "strip_columns nat_raw = nat_raw"
  by (simp add: strip_columns_def nat_raw_def str_strip_def is_space_def rename_row_def fun_eq_iff)

lemma nat_od: "''order_date'' \<in> set (columns nat_raw)"
  by (simp add: nat_raw_def)

lemma nat_load: "load_data L0 nat_raw = Inr (prepare L0 nat_raw)"
  by (rule load_data_distinct[OF nat_strip nat_od]) (simp add: nat_raw_def)

definition nat_view :: frame where
  "nat_view = (prepare L0 nat_raw)\<lparr>rows := filter (passes L0 sel_2022) (rows (prepare L0 nat_raw))\<rparr>"

lemma nat_filter: "apply_filters L0 (prepare L0 nat_raw) sel_2022 = Inr nat_view"
  unfolding apply_filters_Inr nat_view_def
  by (simp add: needed_def sel_2022_def cols_prepare[OF nat_od])

theorem unparsed_dates_never_pass_witness:
  "load_data L0 nat_raw = Inr (prepare L0 nat_raw) \<and>
   apply_filters L0 (prepare L0 nat_raw) sel_2022 = Inr nat_view \<and>
   1 < length (rows (prepare L0 nat_raw)) \<and>
   to_datetime L0 ((rows (strip_columns nat_raw) ! 1) ''order_date'') = NA \<and>
   (rows (prepare L0 nat_raw) ! 1) ''year'' = NA \<and>
   rows (prepare L0 nat_raw) ! 1 \<notin> set (rows nat_view)"
proof -
  have n: "1 < length (rows (prepare L0 nat_raw))"
    using length_rows_load_data[OF nat_load] by (simp add: nat_raw_def)
  have "(rows (strip_columns nat_raw) ! 1) ''order_date'' = Txt ''unknown''"
    unfolding nat_strip by (simp add: nat_raw_def)
  then have d: "to_datetime L0 ((rows (strip_columns nat_raw) ! 1) ''order_date'') = NA"
    by (simp add: to_datetime_def L0_def iso_date_def)
  show ?thesis
    using unparsed_dates_never_pass[OF nat_load nat_filter] nat_load nat_filter n d
    by simp
qed

section \<open>Month keys: the order of the texts is the order of the months\<close>

lemma less_append_same_length:
  fixes xs ys :: "'a::linorder list"
  assumes "length xs = length ys"
  shows "xs @ us < ys @ vs \<longleftrightarrow> xs < ys \<or> (xs = ys \<and> us < vs)"
  using assms by (induction xs ys rule: list_induct2) auto

lemma length_zero_pad: "length (zero_pad k n) = k"
  by (induction k arbitrary: n) simp_all

lemma digit_char_less: "digit_char a < digit_char b \<longleftrightarrow> a mod 10 < b mod 10"
proof -
  have "48 + a mod 10 < 256" "48 + b mod 10 < 256"
    by simp_all
  then show ?thesis
    by (simp add: digit_char_def less_char_def)
qed

lemma digit_char_eq: "digit_char a = digit_char b \<longleftrightarrow> a mod 10 = b mod 10"
proof
  assume "digit_char a = digit_char b"
  then have "\<not> a mod 10 < b mod 10" "\<not> b mod 10 < a mod 10"
    using digit_char_less[of a b] digit_char_less[of b a] by simp_all
  then show "a mod 10 = b mod 10" by simp
next
  assume "a mod 10 = b mod 10"
  then show "digit_char a = digit_char b" by (simp add: digit_char_def)
qed


lemma less_base_10:
  fixes q r q' r' :: nat
  assumes "r < 10" "r' < 10"
  shows "10 * q + r < 10 * q' + r' \<longleftrightarrow> q < q' \<or> (q = q' \<and> r < r')"
  using assms by linarith

lemma less_div_mod_10:
  "(n::nat) < n' \<longleftrightarrow> n div 10 < n' div 10 \<or> (n div 10 = n' div 10 \<and> n mod 10 < n' mod 10)"
  using less_base_10[of "n mod 10" "n' mod 10" "n div 10" "n' div 10"] by simp

lemma eq_div_mod_10: "(n::nat) = n' \<longleftrightarrow> n div 10 = n' div 10 \<and> n mod 10 = n' mod 10"
  by (metis div_mult_mod_eq)

lemma div_10_less: "(n::nat) < 10 ^ Suc k \<Longrightarrow> n div 10 < 10 ^ k"
  by (simp add: less_mult_imp_div_less)

lemma zero_pad_eq:
  "n < 10 ^ k \<Longrightarrow> n' < 10 ^ k \<Longrightarrow> zero_pad k n = zero_pad k n' \<longleftrightarrow> n = n'"
proof (induction k arbitrary: n n')
  case 0
  then show ?case by simp
next
  case (Suc k)
  have "zero_pad k (n div 10) = zero_pad k (n' div 10) \<longleftrightarrow> n div 10 = n' div 10"
    using Suc.prems by (intro Suc.IH div_10_less)
  then show ?case
    by (simp add: digit_char_eq eq_div_mod_10[of n n'])
qed

lemma zero_pad_less:
  "n < 10 ^ k \<Longrightarrow> n' < 10 ^ k \<Longrightarrow> zero_pad k n < zero_pad k n' \<longleftrightarrow> n < n'"
proof (induction k arbitrary: n n')
  case 0
  then show ?case by simp
next
  case (Suc k)
  have b: "n div 10 < 10 ^ k" "n' div 10 < 10 ^ k"
    using Suc.prems by (simp_all add: div_10_less)
  show ?case
    by (simp add: less_append_same_length length_zero_pad Suc.IH[OF b] zero_pad_eq[OF b]
        digit_char_less less_div_mod_10[of n n'])
qed


lemma strftime_Ym_less:
  assumes "y < 10000" "y' < 10000" "m < 100" "m' < 100"
  shows "strftime_Ym y m < strftime_Ym y' m' \<longleftrightarrow> y < y' \<or> (y = y' \<and> m < m')"
proof -
  have y: "y < 10 ^ 4" "y' < 10 ^ 4" and m: "m < 10 ^ 2" "m' < 10 ^ 2"
    using assms by simp_all
  have "zero_pad 4 y @ (''-'' @ zero_pad 2 m) < zero_pad 4 y' @ (''-'' @ zero_pad 2 m') \<longleftrightarrow>
        zero_pad 4 y < zero_pad 4 y' \<or>
        (zero_pad 4 y = zero_pad 4 y' \<and> ''-'' @ zero_pad 2 m < ''-'' @ zero_pad 2 m')"
    by (rule less_append_same_length) (simp only: length_zero_pad)
  also have "''-'' @ zero_pad 2 m < ''-'' @ zero_pad 2 m' \<longleftrightarrow> zero_pad 2 m < zero_pad 2 m'"
    by simp
  finally show ?thesis
    unfolding strftime_Ym_def zero_pad_less[OF y] zero_pad_eq[OF y] zero_pad_less[OF m] .
qed

lemma strftime_Ym_inj:
  assumes "y < 10000" "y' < 10000" "m < 100" "m' < 100"
  shows "strftime_Ym y m = strftime_Ym y' m' \<longleftrightarrow> y = y' \<and> m = m'"
proof -
  have y: "y < 10 ^ 4" "y' < 10 ^ 4" and m: "m < 10 ^ 2" "m' < 10 ^ 2"
    using assms by simp_all
  have "zero_pad 4 y @ (''-'' @ zero_pad 2 m) = zero_pad 4 y' @ (''-'' @ zero_pad 2 m') \<longleftrightarrow>
        zero_pad 4 y = zero_pad 4 y' \<and> zero_pad 2 m = zero_pad 2 m'"
    by (simp add: length_zero_pad)
  then show ?thesis
    unfolding strftime_Ym_def zero_pad_eq[OF y] zero_pad_eq[OF m] .
qed

section \<open>Groups\<close>

text \<open>
  The parts of \<open>groupby\<close>: the rows that have a key (no missing cell among the key
  columns), the distinct keys in ascending order, and the rows of one key.
\<close>

definition live :: "string list \<Rightarrow> row list \<Rightarrow> row list" where
  "live ks rs = filter (\<lambda>r. NA \<notin> set (key_of ks r)) rs"

definition group_keys :: "string list \<Rightarrow> row list \<Rightarrow> cell list list" where
  "group_keys ks rs = sort_key (map rank) (remdups (map (key_of ks) (live ks rs)))"

definition bucket :: "string list \<Rightarrow> row list \<Rightarrow> cell list \<Rightarrow> row list" where
  "bucket ks rs k = filter (\<lambda>r. key_of ks r = k) (live ks rs)"

lemma groupby_buckets: "groupby ks rs = map (\<lambda>k. (k, bucket ks rs k)) (group_keys ks rs)"
  by (simp add: groupby_def live_def group_keys_def bucket_def Let_def)

lemma inj_rank: "inj rank"
proof (rule injI)
  fix a b :: cell
  assume "rank a = rank b"
  then show "a = b"
    by (cases a; cases b) simp_all
qed

lemma distinct_group_keys: "distinct (group_keys ks rs)"
  by (simp add: group_keys_def)

lemma set_group_keys: "set (group_keys ks rs) = key_of ks ` set (live ks rs)"
  by (simp add: group_keys_def)

lemma sorted_group_keys: "sorted (map (map rank) (group_keys ks rs))"
  by (simp add: group_keys_def sorted_sort_key)

lemma strict_sorted_group_keys:
  "sorted_wrt (\<lambda>a b. map rank a < map rank b) (group_keys ks rs)"
proof -
  have "inj (map rank)"
    by (rule inj_mapI[OF inj_rank])
  then have "inj_on (map rank) (set (group_keys ks rs))"
    by (rule inj_on_subset) (rule subset_UNIV)
  then have "distinct (map (map rank) (group_keys ks rs))"
    by (simp only: distinct_map distinct_group_keys simp_thms)
  then have "sorted_wrt (<) (map (map rank) (group_keys ks rs))"
    using sorted_group_keys by (simp only: strict_sorted_iff simp_thms)
  then show ?thesis
    by (simp only: sorted_wrt_map)
qed

lemma mset_concat_filter:
  "distinct ks \<Longrightarrow>
   mset (concat (map (\<lambda>k. filter (\<lambda>r. f r = k) xs) ks)) = mset (filter (\<lambda>r. f r \<in> set ks) xs)"
proof (induction ks)
  case Nil
  then show ?case by simp
next
  case (Cons k ks)
  have "filter_mset (\<lambda>r. f r = k) (mset xs) + filter_mset (\<lambda>r. f r \<in> set ks) (mset xs) =
        filter_mset (\<lambda>r. f r = k \<or> f r \<in> set ks) (mset xs)"
    using Cons.prems by (intro multiset_eqI) auto
  with Cons show ?case by simp
qed

lemma mset_buckets:
  "mset (concat (map (bucket ks rs) (group_keys ks rs))) = mset (live ks rs)"
proof -
  have "mset (concat (map (bucket ks rs) (group_keys ks rs))) =
        mset (filter (\<lambda>r. key_of ks r \<in> set (group_keys ks rs)) (live ks rs))"
    unfolding bucket_def[abs_def] by (rule mset_concat_filter[OF distinct_group_keys])
  also have "filter (\<lambda>r. key_of ks r \<in> set (group_keys ks rs)) (live ks rs) = live ks rs"
    by (simp add: set_group_keys)
  finally show ?thesis .
qed

lemma bucket_nonempty:
  assumes "k \<in> set (group_keys ks rs)"
  shows "bucket ks rs k \<noteq> []"
proof -
  from assms obtain r where "r \<in> set (live ks rs)" "key_of ks r = k"
    unfolding set_group_keys by blast
  then have "r \<in> set (bucket ks rs k)"
    by (simp add: bucket_def)
  then show ?thesis by auto
qed

lemma col_sum_mset: "mset xs = mset ys \<Longrightarrow> col_sum c xs = col_sum c ys"
proof -
  assume "mset xs = mset ys"
  then have "mset (map (\<lambda>r. num (r c)) xs) = mset (map (\<lambda>r. num (r c)) ys)"
    by simp
  then have "sum_mset (mset (map (\<lambda>r. num (r c)) xs)) = sum_mset (mset (map (\<lambda>r. num (r c)) ys))"
    by (rule arg_cong)
  then show ?thesis
    by (simp only: col_sum_def sum_mset_sum_list)
qed

lemma col_sum_concat: "col_sum c (concat xss) = sum_list (map (col_sum c) xss)"
  by (induction xss) (simp_all add: col_sum_def)

lemma sum_buckets:
  "sum_list (map (\<lambda>k. col_sum c (bucket ks rs k)) (group_keys ks rs)) = col_sum c (live ks rs)"
  using col_sum_mset[OF mset_buckets, of c ks rs] by (simp add: col_sum_concat o_def)

lemma map_of_keyed:
  "k \<in> set ks \<Longrightarrow> map_of (map (\<lambda>k. (k, f k)) ks) k = Some (f k)"
  by (induction ks) auto

lemma nunique_card: "nunique c rs = card ((\<lambda>r. r c) ` set rs - {NA})"
proof -
  have "set (filter (\<lambda>v. v \<noteq> NA) (map (\<lambda>r. r c) rs)) = (\<lambda>r. r c) ` set rs - {NA}"
    by auto
  then show ?thesis
    unfolding nunique_def by (simp only: length_remdups_card_conv)
qed

section \<open>Filtered views of a prepared table\<close>

lemma dt_year_Stamp: "dt_year c = Num x \<Longrightarrow> \<exists>y m d. c = Stamp y m d \<and> x = real y"
  by (cases c) simp_all

lemma view_row:
  assumes "load_data L raw = Inr T" and "apply_filters L T s = Inr V" and "r \<in> set (rows V)"
  shows "\<exists>y m d. r ''order_date'' = Stamp y m d \<and> in_bounds y m d \<and>
           int y = selected_year s \<and> r ''month_name'' = Txt (strftime_Ym y m)"
proof -
  from assms(2,3) have rT: "r \<in> set (rows T)" and p: "passes L s r"
    by (simp_all add: apply_filters_Inr)
  have "dt_year (r ''order_date'') = Num (of_int (selected_year s))"
    using prepared_row_date(1)[OF assms(1) rT] passes_year[OF p] by simp
  then obtain y m d where od: "r ''order_date'' = Stamp y m d"
    and y: "real_of_int (selected_year s) = real y"
    by (blast dest: dt_year_Stamp)
  from y have "selected_year s = int y"
    by (metis of_int_eq_iff of_int_of_nat_eq)
  moreover have "in_bounds y m d"
    using prepared_row_date(4)[OF assms(1) rT] od by simp
  moreover have "r ''month_name'' = Txt (strftime_Ym y m)"
    using prepared_row_date(3)[OF assms(1) rT] od by simp
  ultimately show ?thesis
    using od by auto
qed

lemma view_live:
  assumes "load_data L raw = Inr T" and "apply_filters L T s = Inr V"
  shows "live [''month_name''] (rows V) = rows V"
proof -
  have "NA \<notin> set (key_of [''month_name''] r)" if "r \<in> set (rows V)" for r
    using view_row[OF assms that] by (auto simp: key_of_def)
  then show ?thesis
    by (simp add: live_def)
qed

definition month_row_of :: "row list \<Rightarrow> cell list \<Rightarrow> month_row" where
  "month_row_of rs k =
     (let g = bucket [''month_name''] rs k
      in \<lparr>month_name = k, m_before_discount = col_sum ''before_discount'' g,
          m_net_profit = col_sum ''net_profit'' g,
          unique_orders = Some (nunique ''id'' g),
          AOV = fdiv (col_sum ''before_discount'' g) (Some (nunique ''id'' g))\<rparr>)"

lemma monthly_metrics_closed:
  "monthly_metrics df =
     require [''month_name'', ''id'', ''before_discount'', ''net_profit''] df
       (Inr (map (month_row_of (rows df)) (group_keys [''month_name''] (rows df))))"
proof -
  let ?ks = "group_keys [''month_name''] (rows df)"
  let ?mk = "\<lambda>(k, g). let bd = col_sum ''before_discount'' g;
                             uo = map_of (monthly_orders df) k
                  in \<lparr>month_name = k, m_before_discount = bd,
                      m_net_profit = col_sum ''net_profit'' g,
                      unique_orders = uo, AOV = fdiv bd uo\<rparr>"
  have mo: "monthly_orders df = map (\<lambda>k. (k, nunique ''id'' (bucket [''month_name''] (rows df) k))) ?ks"
    by (simp add: monthly_orders_def groupby_buckets o_def)
  have "map ?mk (groupby [''month_name''] (rows df)) = map (month_row_of (rows df)) ?ks"
    by (simp add: groupby_buckets o_def mo map_of_keyed month_row_of_def Let_def)
  moreover have "sort_key (\<lambda>m. map rank (month_name m)) (map (month_row_of (rows df)) ?ks) =
      map (month_row_of (rows df)) ?ks"
  proof (rule sort_key_id_if_sorted)
    have "map (\<lambda>m. map rank (month_name m)) (map (month_row_of (rows df)) ?ks) = map (map rank) ?ks"
      by (simp add: o_def month_row_of_def Let_def)
    then show "sorted (map (\<lambda>m. map rank (month_name m)) (map (month_row_of (rows df)) ?ks))"
      by (simp only: sorted_group_keys)
  qed
  ultimately show ?thesis
    by (simp only: monthly_metrics_def)
qed


lemma view_columns:
  assumes "load_data L raw = Inr T" and "apply_filters L T s = Inr V"
  shows "''month_name'' \<in> set (columns V)" "''net_profit'' \<in> set (columns V)"
proof -
  have "columns V = columns T"
    using assms(2) by (simp add: apply_filters_Inr)
  then show "''month_name'' \<in> set (columns V)" "''net_profit'' \<in> set (columns V)"
    using cols_load_data[OF assms(1)] by simp_all
qed

lemma ex_view_cols:
  "set (columns (ex_view s)) =
     set ex_columns \<union> {''net_profit'', ''year'', ''month'', ''month_name''}"
  by (simp add: ex_view_def ex_cols)

section \<open>Monthly trend\<close>



definition key_text :: "cell list \<Rightarrow> string" where
  "key_text k = (case k of [Txt t] \<Rightarrow> t | _ \<Rightarrow> [])"

lemma fdiv_cases:
  "(n \<noteq> 0 \<longrightarrow> fdiv x (Some n) = Fin (x / real n)) \<and>
   (n = 0 \<longrightarrow> fdiv x (Some n) = (if x = 0 then NaN else if 0 < x then PInf else NInf))"
  by (simp add: fdiv_def)

text \<open>
  What the monthly aggregation returns. For a filtered view of a prepared table that has
  the columns \<open>id\<close> and \<open>before_discount\<close>, it returns (it does not raise). Its
  rows have the month keys that occur in the view, each once, in ascending order of the key
  texts; the row of a key holds the sum of \<open>before_discount\<close> and of \<open>net_profit\<close>
  over the rows of the view with that key, the number of their distinct order ids
  (missing ids are not counted), and as \<open>AOV\<close> the quotient of that sum by that
  number. When the number is zero, line 84 divides all the same: the quotient is \<open>NaN\<close>
  only if the sum is zero too, and an infinity with the sign of the sum otherwise. The
  order of the key texts is the order in time: for two rows of the view, the key of the
  first is below the key of the second exactly when its (year, month) is earlier.
\<close>

lemma monthly_rows:
  assumes "load_data L raw = Inr T" and "apply_filters L T s = Inr V"
    and "''id'' \<in> set (columns V)" and "''before_discount'' \<in> set (columns V)"
  shows "\<exists>ms. monthly_metrics V = Inr ms \<and>
    sorted_wrt (<) (map (\<lambda>m. key_text (month_name m)) ms) \<and>
    set (map month_name ms) = (\<lambda>r. [r ''month_name'']) ` set (rows V) \<and>
    (\<forall>m \<in> set ms. \<exists>t. month_name m = [Txt t] \<and>
       (let g = filter (\<lambda>r. r ''month_name'' = Txt t) (rows V);
            n = card ((\<lambda>r. r ''id'') ` set g - {NA})
        in g \<noteq> [] \<and>
           m_before_discount m = col_sum ''before_discount'' g \<and>
           m_net_profit m = col_sum ''net_profit'' g \<and>
           unique_orders m = Some n \<and>
           (n \<noteq> 0 \<longrightarrow> AOV m = Fin (col_sum ''before_discount'' g / real n)) \<and>
           (n = 0 \<longrightarrow> AOV m =
              (if col_sum ''before_discount'' g = 0 then NaN
               else if 0 < col_sum ''before_discount'' g then PInf else NInf)))) \<and>
    (\<forall>r1 \<in> set (rows V). \<forall>r2 \<in> set (rows V). \<forall>y1 m1 d1 y2 m2 d2.
       r1 ''order_date'' = Stamp y1 m1 d1 \<longrightarrow> r2 ''order_date'' = Stamp y2 m2 d2 \<longrightarrow>
       (key_text [r1 ''month_name''] < key_text [r2 ''month_name''] \<longleftrightarrow>
          y1 < y2 \<or> (y1 = y2 \<and> m1 < m2)))"
proof -
  let ?ks = "[''month_name'']"
  let ?K = "group_keys ?ks (rows V)"
  let ?ms = "map (month_row_of (rows V)) ?K"
  have lv: "live ?ks (rows V) = rows V"
    by (rule view_live[OF assms(1,2)])
  have K: "set ?K = (\<lambda>r. [r ''month_name'']) ` set (rows V)"
    by (simp add: set_group_keys lv key_of_def[abs_def])
  have istxt: "\<exists>t. k = [Txt t]" if "k \<in> set ?K" for k
    using that view_row[OF assms(1,2)] unfolding K by fastforce
  have bk: "bucket ?ks (rows V) [Txt t] = filter (\<lambda>r. r ''month_name'' = Txt t) (rows V)" for t
    by (simp add: bucket_def lv key_of_def)
  have ret: "monthly_metrics V = Inr ?ms"
    unfolding monthly_metrics_closed
    using assms(3,4) view_columns[OF assms(1,2)] by (simp add: require_Cons require_Nil)
  have srt: "sorted_wrt (<) (map (\<lambda>m. key_text (month_name m)) ?ms)"
  proof -
    have "sorted_wrt (\<lambda>a b. key_text a < key_text b) ?K"
    proof (rule sorted_wrt_mono_rel[OF _ strict_sorted_group_keys])
      fix a b
      assume "a \<in> set ?K" "b \<in> set ?K" "map rank a < map rank b"
      then show "key_text a < key_text b"
        using istxt[of a] istxt[of b] by (auto simp: key_text_def)
    qed
    then show ?thesis
      by (simp add: sorted_wrt_map month_row_of_def Let_def)
  qed
  have keys: "set (map month_name ?ms) = (\<lambda>r. [r ''month_name'']) ` set (rows V)"
    using K by (simp add: month_row_of_def Let_def image_image)
  have agg: "\<exists>t. month_name m = [Txt t] \<and>
       (let g = filter (\<lambda>r. r ''month_name'' = Txt t) (rows V);
            n = card ((\<lambda>r. r ''id'') ` set g - {NA})
        in g \<noteq> [] \<and>
           m_before_discount m = col_sum ''before_discount'' g \<and>
           m_net_profit m = col_sum ''net_profit'' g \<and>
           unique_orders m = Some n \<and>
           (n \<noteq> 0 \<longrightarrow> AOV m = Fin (col_sum ''before_discount'' g / real n)) \<and>
           (n = 0 \<longrightarrow> AOV m =
              (if col_sum ''before_discount'' g = 0 then NaN
               else if 0 < col_sum ''before_discount'' g then PInf else NInf)))" if "m \<in> set ?ms" for m
  proof -
    from that obtain k where k: "k \<in> set ?K" and m: "m = month_row_of (rows V) k"
      by auto
    from istxt[OF k] obtain t where t: "k = [Txt t]" ..
    define g where "g = filter (\<lambda>r. r ''month_name'' = Txt t) (rows V)"
    define n where "n = card ((\<lambda>r. r ''id'') ` set g - {NA})"
    have bg: "bucket ?ks (rows V) k = g"
      by (simp only: t bk g_def)
    have ne: "g \<noteq> []"
      using bucket_nonempty[OF k] unfolding bg .
    have nu: "nunique ''id'' g = n"
      by (simp only: nunique_card n_def)
    have "month_name m = [Txt t]" "m_before_discount m = col_sum ''before_discount'' g"
      "m_net_profit m = col_sum ''net_profit'' g" "unique_orders m = Some n"
      "AOV m = fdiv (col_sum ''before_discount'' g) (Some n)"
      unfolding m month_row_of_def Let_def bg nu by (simp_all add: t)
    then have "month_name m = [Txt t] \<and>
       (g \<noteq> [] \<and>
           m_before_discount m = col_sum ''before_discount'' g \<and>
           m_net_profit m = col_sum ''net_profit'' g \<and>
           unique_orders m = Some n \<and>
           (n \<noteq> 0 \<longrightarrow> AOV m = Fin (col_sum ''before_discount'' g / real n)) \<and>
           (n = 0 \<longrightarrow> AOV m =
              (if col_sum ''before_discount'' g = 0 then NaN
               else if 0 < col_sum ''before_discount'' g then PInf else NInf)))"
      using ne fdiv_cases[of n "col_sum ''before_discount'' g"] by simp
    then show ?thesis
      unfolding n_def g_def Let_def by (rule exI[where x = t])
  qed
  have chrono: "key_text [r1 ''month_name''] < key_text [r2 ''month_name''] \<longleftrightarrow>
          y1 < y2 \<or> (y1 = y2 \<and> m1 < m2)"
    if "r1 \<in> set (rows V)" "r2 \<in> set (rows V)"
      "r1 ''order_date'' = Stamp y1 m1 d1" "r2 ''order_date'' = Stamp y2 m2 d2"
    for r1 r2 y1 m1 d1 y2 m2 d2
  proof -
    have b1: "in_bounds y1 m1 d1" "r1 ''month_name'' = Txt (strftime_Ym y1 m1)"
      using view_row[OF assms(1,2) that(1)] that(3) by auto
    have b2: "in_bounds y2 m2 d2" "r2 ''month_name'' = Txt (strftime_Ym y2 m2)"
      using view_row[OF assms(1,2) that(2)] that(4) by auto
    have "y1 < 10000" "y2 < 10000" "m1 < 100" "m2 < 100"
      using b1(1) b2(1) by (simp_all add: in_bounds_def)
    then show ?thesis
      by (simp add: b1(2) b2(2) key_text_def strftime_Ym_less)
  qed
  from agg have agg': "\<forall>m \<in> set ?ms. \<exists>t. month_name m = [Txt t] \<and>
       (let g = filter (\<lambda>r. r ''month_name'' = Txt t) (rows V);
            n = card ((\<lambda>r. r ''id'') ` set g - {NA})
        in g \<noteq> [] \<and>
           m_before_discount m = col_sum ''before_discount'' g \<and>
           m_net_profit m = col_sum ''net_profit'' g \<and>
           unique_orders m = Some n \<and>
           (n \<noteq> 0 \<longrightarrow> AOV m = Fin (col_sum ''before_discount'' g / real n)) \<and>
           (n = 0 \<longrightarrow> AOV m =
              (if col_sum ''before_discount'' g = 0 then NaN
               else if 0 < col_sum ''before_discount'' g then PInf else NInf)))"
    by (rule ballI)
  from chrono have chrono': "\<forall>r1 \<in> set (rows V). \<forall>r2 \<in> set (rows V). \<forall>y1 m1 d1 y2 m2 d2.
       r1 ''order_date'' = Stamp y1 m1 d1 \<longrightarrow> r2 ''order_date'' = Stamp y2 m2 d2 \<longrightarrow>
       (key_text [r1 ''month_name''] < key_text [r2 ''month_name''] \<longleftrightarrow>
          y1 < y2 \<or> (y1 = y2 \<and> m1 < m2))"
    by (intro ballI allI impI)
  show ?thesis
    by (rule exI[of _ ?ms]) (intro conjI ret srt keys agg' chrono')
qed

lemma to_datetime_iso:
  "to_datetime L0 (Txt ''2022-01-15'') = Stamp 2022 1 15"
  "to_datetime L0 (Txt ''2022-02-01'') = Stamp 2022 2 1"
  by (simp_all add: to_datetime_def L0_def iso1 iso2 stamp_or_nat_def in_bounds_def)

lemma other_cells_unchanged:
  "c \<in> {''id'', ''customer_id'', ''sku_id'', ''sku_name'', ''category'', ''payment_method''} \<Longrightarrow>
   prepare_row L0 C r c = r c"
  by (rule prepare_row_other) (auto simp: numeric_columns_def)

text \<open>The monthly aggregation of the example scenario.\<close>

abbreviation "ex1 \<equiv> prepare_row L0 (set ex_columns) ex_row1"
abbreviation "ex2 \<equiv> prepare_row L0 (set ex_columns) ex_row2"

lemma ex_dates:
  "ex1 ''order_date'' = Stamp 2022 1 15" "ex2 ''order_date'' = Stamp 2022 2 1"
  by (simp_all add: prepare_row_order_date ex_row1_def ex_row2_def to_datetime_iso)

lemma ex_year: "ex1 ''year'' = Num 2022" "ex2 ''year'' = Num 2022"
  by (simp_all add: prepare_row_year ex_dates)

lemma strftime_examples:
  "strftime_Ym 2022 1 = ''2022-01''" "strftime_Ym 2022 (Suc 0) = ''2022-01''"
  "strftime_Ym 2022 2 = ''2022-02''"
  by code_simp+

lemma ex_month_name:
  "ex1 ''month_name'' = Txt ''2022-01''" "ex2 ''month_name'' = Txt ''2022-02''"
  by (simp_all add: prepare_row_month_name ex_dates strftime_examples)

lemma ex_view_rows: "rows (ex_view sel_2022) = [ex1, ex2]"
  by (simp add: ex_view_def ex_rows passes_def sel_2022_def ex_year)

lemma ex_has:
  "''before_discount'' \<in> set ex_columns" "''cogs'' \<in> set ex_columns"
  "''qty_ordered'' \<in> set ex_columns"
  by (simp_all add: ex_columns_def)

lemma ex_numeric:
  "c \<in> {''before_discount'', ''qty_ordered'', ''cogs''} \<Longrightarrow>
   prepare_row L0 (set ex_columns) r c = Num (fillna0 (to_numeric L0 (r c)))"
  by (rule prepare_row_numeric) (auto simp: numeric_columns_def ex_columns_def)

lemma ex_numbers:
  "ex1 ''before_discount'' = Num 100" "ex2 ''before_discount'' = Num 500"
  "ex1 ''qty_ordered'' = Num 2" "ex2 ''qty_ordered'' = Num 1"
  "ex1 ''cogs'' = Num 20" "ex2 ''cogs'' = Num 300"
  by (simp_all add: ex_numeric to_numeric_def fillna0_def ex_row1_def ex_row2_def)

lemma ex_net_profit: "ex1 ''net_profit'' = Num 60" "ex2 ''net_profit'' = Num 200"
  by (simp_all add: prepare_row_net_profit Let_def ex_numbers ex_has)

lemma ex_ids: "ex1 ''id'' = Num 1" "ex2 ''id'' = Num 2"
  by (simp_all add: other_cells_unchanged ex_row1_def ex_row2_def)

lemma monthly_example:
  "monthly_metrics (ex_view sel_2022) =
     Inr [\<lparr>month_name = [Txt ''2022-01''], m_before_discount = 100, m_net_profit = 60,
            unique_orders = Some 1, AOV = Fin 100\<rparr>,
          \<lparr>month_name = [Txt ''2022-02''], m_before_discount = 500, m_net_profit = 200,
            unique_orders = Some 1, AOV = Fin 500\<rparr>]"
proof -
  have lv: "live [''month_name''] (rows (ex_view sel_2022)) = [ex1, ex2]"
    by (simp add: live_def ex_view_rows key_of_def ex_month_name)
  have K: "group_keys [''month_name''] (rows (ex_view sel_2022)) =
      [[Txt ''2022-01''], [Txt ''2022-02'']]"
    by (simp add: group_keys_def lv key_of_def ex_month_name)
  have B: "bucket [''month_name''] (rows (ex_view sel_2022)) [Txt ''2022-01''] = [ex1]"
    "bucket [''month_name''] (rows (ex_view sel_2022)) [Txt ''2022-02''] = [ex2]"
    by (simp_all add: bucket_def lv key_of_def ex_month_name)
  have "set [''month_name'', ''id'', ''before_discount'', ''net_profit'']
          \<subseteq> set (columns (ex_view sel_2022))"
    by (simp add: ex_view_cols ex_columns_def)
  then show ?thesis
    by (simp add: monthly_metrics_closed require_all K month_row_of_def B col_sum_def nunique_def
        ex_numbers ex_net_profit ex_ids fdiv_def)
qed

text \<open>
  The example table with the two order ids missing and both rows in January 2022: a
  month with rows and sales, and no order to count.
\<close>

definition orphan_row1 :: row where
  "orphan_row1 = ex_row1(''id'' := NA)"

definition orphan_row2 :: row where
  "orphan_row2 = ex_row2(''id'' := NA, ''order_date'' := Txt ''2022-01-15'')"

definition orphan_raw :: frame where
  "orphan_raw = \<lparr>columns = ex_columns, rows = [orphan_row1, orphan_row2]\<rparr>"

definition orphan_view :: frame where
  "orphan_view =
     (prepare L0 orphan_raw)
       \<lparr>rows := filter (passes L0 sel_2022) (rows (prepare L0 orphan_raw))\<rparr>"

lemma orphan_od: "''order_date'' \<in> set (columns orphan_raw)"
  by (simp add: orphan_raw_def ex_columns_def)

lemma orphan_rename:
  "rename_row ex_columns orphan_row1 = orphan_row1"
  "rename_row ex_columns orphan_row2 = orphan_row2"
  by (rule ext, simp only: rename_row_ex,
      simp add: ex_columns_def orphan_row1_def orphan_row2_def ex_row1_def ex_row2_def)+

lemma orphan_strip: "strip_columns orphan_raw = orphan_raw"
  by (simp add: strip_columns_def orphan_raw_def str_strip_ex orphan_rename)

lemma orphan_load: "load_data L0 orphan_raw = Inr (prepare L0 orphan_raw)"
  by (rule load_data_distinct[OF orphan_strip orphan_od]) (simp add: orphan_raw_def ex_columns_def)

abbreviation "orphan1 \<equiv> prepare_row L0 (set ex_columns) orphan_row1"
abbreviation "orphan2 \<equiv> prepare_row L0 (set ex_columns) orphan_row2"

lemma orphan_rows: "rows (prepare L0 orphan_raw) = [orphan1, orphan2]"
  by (simp add: rows_prepare[OF orphan_od]) (simp add: orphan_raw_def)

lemma orphan_cols:
  "set (columns (prepare L0 orphan_raw)) =
     set ex_columns \<union> {''net_profit'', ''year'', ''month'', ''month_name''}"
  by (simp add: cols_prepare[OF orphan_od]) (simp add: orphan_raw_def)

lemma orphan_dates:
  "orphan1 ''order_date'' = Stamp 2022 1 15" "orphan2 ''order_date'' = Stamp 2022 1 15"
  by (simp_all add: prepare_row_order_date orphan_row1_def orphan_row2_def ex_row1_def
      ex_row2_def to_datetime_iso)

lemma orphan_year: "orphan1 ''year'' = Num 2022" "orphan2 ''year'' = Num 2022"
  by (simp_all add: prepare_row_year orphan_dates)

lemma orphan_month_name:
  "orphan1 ''month_name'' = Txt ''2022-01''" "orphan2 ''month_name'' = Txt ''2022-01''"
  by (simp_all add: prepare_row_month_name orphan_dates strftime_examples)

lemma orphan_view_rows: "rows orphan_view = [orphan1, orphan2]"
  by (simp add: orphan_view_def orphan_rows passes_def sel_2022_def orphan_year)

lemma orphan_view_cols:
  "set (columns orphan_view) =
     set ex_columns \<union> {''net_profit'', ''year'', ''month'', ''month_name''}"
  by (simp add: orphan_view_def orphan_cols)

lemma orphan_filter: "apply_filters L0 (prepare L0 orphan_raw) sel_2022 = Inr orphan_view"
  unfolding apply_filters_Inr orphan_view_def by (simp add: needed_def sel_2022_def orphan_cols)

lemma orphan_numbers:
  "orphan1 ''before_discount'' = Num 100" "orphan2 ''before_discount'' = Num 500"
  "orphan1 ''qty_ordered'' = Num 2" "orphan2 ''qty_ordered'' = Num 1"
  "orphan1 ''cogs'' = Num 20" "orphan2 ''cogs'' = Num 300"
  by (simp_all add: ex_numeric to_numeric_def fillna0_def orphan_row1_def orphan_row2_def
      ex_row1_def ex_row2_def)

lemma orphan_net_profit: "orphan1 ''net_profit'' = Num 60" "orphan2 ''net_profit'' = Num 200"
  by (simp_all add: prepare_row_net_profit Let_def orphan_numbers ex_has)

lemma orphan_ids: "orphan1 ''id'' = NA" "orphan2 ''id'' = NA"
  by (simp_all add: other_cells_unchanged orphan_row1_def orphan_row2_def)

text \<open>
  Claim C3 does not hold of the code. The monthly aggregation does group the rows by the
  month key, sum and count as the claim says, and give the months in order (lemma
  \<open>monthly_rows\<close>), but line 84 divides the column of sums by the column of counts with
  no guard. In the table above January 2022 has two rows, which sum to 600, and no order
  id: its count of orders is 0 and its \<open>AOV\<close> is \<open>+inf\<close>, where the claim has it
  undefined (\<open>NaN\<close>). The overall average of line 135 is guarded, and is \<open>NaN\<close> on the
  same view.
\<close>

theorem monthly_zero_orders_infinite:
  "load_data L0 orphan_raw = Inr (prepare L0 orphan_raw) \<and>
   apply_filters L0 (prepare L0 orphan_raw) sel_2022 = Inr orphan_view \<and>
   map (\<lambda>r. (r ''id'', r ''month_name'', r ''before_discount'')) (rows orphan_view) =
     [(NA, Txt ''2022-01'', Num 100), (NA, Txt ''2022-01'', Num 500)] \<and>
   monthly_metrics orphan_view =
     Inr [\<lparr>month_name = [Txt ''2022-01''], m_before_discount = 600, m_net_profit = 260,
            unique_orders = Some 0, AOV = PInf\<rparr>] \<and>
   aov_overall orphan_view = Inr NaN"
proof -
  have lv: "live [''month_name''] (rows orphan_view) = [orphan1, orphan2]"
    by (simp add: live_def orphan_view_rows key_of_def orphan_month_name)
  have K: "group_keys [''month_name''] (rows orphan_view) = [[Txt ''2022-01'']]"
    by (simp add: group_keys_def lv key_of_def orphan_month_name)
  have B: "bucket [''month_name''] (rows orphan_view) [Txt ''2022-01''] = [orphan1, orphan2]"
    by (simp add: bucket_def lv key_of_def orphan_month_name)
  have c: "set [''month_name'', ''id'', ''before_discount'', ''net_profit'']
          \<subseteq> set (columns orphan_view)"
    by (simp add: orphan_view_cols ex_columns_def)
  have m: "monthly_metrics orphan_view =
     Inr [\<lparr>month_name = [Txt ''2022-01''], m_before_discount = 600, m_net_profit = 260,
            unique_orders = Some 0, AOV = PInf\<rparr>]"
    using c
    by (simp add: monthly_metrics_closed require_all K month_row_of_def B col_sum_def nunique_def
        orphan_numbers orphan_net_profit orphan_ids fdiv_def)
  have "''id'' \<in> set (columns orphan_view)"
    by (simp add: orphan_view_cols ex_columns_def)
  then have a: "aov_overall orphan_view = Inr NaN"
    by (simp add: aov_overall_def require_Cons require_Nil nunique_def orphan_view_rows
        orphan_ids)
  have r: "map (\<lambda>r. (r ''id'', r ''month_name'', r ''before_discount'')) (rows orphan_view) =
     [(NA, Txt ''2022-01'', Num 100), (NA, Txt ''2022-01'', Num 500)]"
    by (simp add: orphan_view_rows orphan_ids orphan_month_name orphan_numbers)
  show ?thesis
    by (intro conjI orphan_load orphan_filter r m a)
qed

section \<open>Product rollup\<close>

definition rollup_keys :: "string list" where
  "rollup_keys = [''sku_id'', ''sku_name'', ''category'']"

definition rollup_columns :: "string list" where
  "rollup_columns = [''sku_id'', ''sku_name'', ''category'', ''before_discount'',
     ''after_discount'', ''net_profit'', ''qty_ordered'', ''customer_id'']"

definition prod_row_of :: "row list \<Rightarrow> cell list \<Rightarrow> prod_row" where
  "prod_row_of rs k =
     (let g = bucket rollup_keys rs k
      in \<lparr>p_key = k,
          p_before_discount = col_sum ''before_discount'' g,
          p_after_discount = col_sum ''after_discount'' g,
          p_net_profit = col_sum ''net_profit'' g,
          p_qty_ordered = col_sum ''qty_ordered'' g,
          unique_customers = nunique ''customer_id'' g\<rparr>)"

text \<open>
  What the rollup needs of the sort of the library: for every column of numbers the indexer
  holds every position once, and the numbers at its positions descend. Nothing is asked
  about the order of equal numbers.
\<close>

definition sorts_descending :: "pandas \<Rightarrow> bool" where
  "sorts_descending L =
     (\<forall>vs. mset (argsort_desc L vs) = mset [0..<length vs] \<and>
           sorted_wrt (\<lambda>a b. b \<le> a) (map ((!) vs) (argsort_desc L vs)))"

lemma prod_groups_closed:
  "prod_groups df = map (prod_row_of (rows df)) (group_keys rollup_keys (rows df))"
  by (simp add: prod_groups_def groupby_buckets o_def prod_row_of_def[abs_def] rollup_keys_def
      Let_def)

lemma prod_agg_closed:
  "prod_agg L df =
     require rollup_columns df
       (Inr (sort_values_desc L (map (prod_row_of (rows df)) (group_keys rollup_keys (rows df)))))"
  by (simp add: prod_agg_def prod_groups_closed rollup_columns_def)

lemma p_key_prod_row_of: "p_key (prod_row_of rs k) = k"
  by (simp add: prod_row_of_def Let_def)

lemma p_bd_prod_row_of:
  "p_before_discount (prod_row_of rs k) = col_sum ''before_discount'' (bucket rollup_keys rs k)"
  by (simp add: prod_row_of_def Let_def)

lemma bucket_of_key:
  assumes "k \<in> set (group_keys ks rs)"
  shows "bucket ks rs k = filter (\<lambda>r. key_of ks r = k) rs"
proof -
  from assms have "NA \<notin> set k"
    by (auto simp: set_group_keys live_def)
  then show ?thesis
    unfolding bucket_def live_def filter_filter by (intro filter_cong refl) auto
qed

lemma argsort_positions:
  assumes "sorts_descending L"
  shows "mset (argsort_desc L (map f xs)) = mset [0..<length xs]"
    and "set (argsort_desc L (map f xs)) = {0..<length xs}"
proof -
  show m: "mset (argsort_desc L (map f xs)) = mset [0..<length xs]"
    using assms unfolding sorts_descending_def by (metis length_map)
  show "set (argsort_desc L (map f xs)) = {0..<length xs}"
    using mset_eq_setD[OF m] by simp
qed

lemma sort_values_desc_indexed:
  assumes "sorts_descending L"
  shows "sort_values_desc L xs = map ((!) xs) (argsort_desc L (map p_before_discount xs))"
  unfolding sort_values_desc_def
  by (simp add: filter_id_conv argsort_positions(2)[OF assms])

lemma mset_sort_values_desc:
  assumes "sorts_descending L"
  shows "mset (sort_values_desc L xs) = mset xs"
proof -
  have "mset (sort_values_desc L xs) =
        image_mset ((!) xs) (mset (argsort_desc L (map p_before_discount xs)))"
    unfolding sort_values_desc_indexed[OF assms] by (rule mset_map)
  also have "\<dots> = image_mset ((!) xs) (mset [0..<length xs])"
    by (simp only: argsort_positions(1)[OF assms])
  also have "\<dots> = mset (map ((!) xs) [0..<length xs])"
    by (rule mset_map[symmetric])
  also have "\<dots> = mset xs"
    by (simp only: map_nth)
  finally show ?thesis .
qed

lemma sorted_sort_values_desc:
  assumes "sorts_descending L"
  shows "sorted_wrt (\<lambda>a b. p_before_discount b \<le> p_before_discount a) (sort_values_desc L xs)"
proof -
  let ?idx = "argsort_desc L (map p_before_discount xs)"
  have "sorted_wrt (\<lambda>a b. b \<le> a) (map ((!) (map p_before_discount xs)) ?idx)"
    using assms unfolding sorts_descending_def by blast
  moreover have "map ((!) (map p_before_discount xs)) ?idx =
      map p_before_discount (map ((!) xs) ?idx)"
    unfolding map_map by (rule map_cong[OF refl]) (simp add: argsort_positions(2)[OF assms])
  ultimately have "sorted_wrt (\<lambda>a b. b \<le> a) (map p_before_discount (map ((!) xs) ?idx))"
    by simp
  then show ?thesis
    unfolding sort_values_desc_indexed[OF assms] by (simp only: sorted_wrt_map)
qed

text \<open>The stable sort of the example library is such a sort.\<close>

lemma mset_stable_argsort_desc: "mset (stable_argsort_desc vs) = mset [0..<length vs]"
proof -
  let ?zs = "zip vs [0..<length vs]"
  have "mset (stable_argsort_desc vs) = image_mset snd (mset (sort_key (\<lambda>p. - fst p) ?zs))"
    unfolding stable_argsort_desc_def by (rule mset_map)
  also have "\<dots> = image_mset snd (mset ?zs)"
    by (simp only: mset_sort)
  also have "\<dots> = mset (map snd ?zs)"
    by (rule mset_map[symmetric])
  also have "map snd ?zs = [0..<length vs]"
    by simp
  finally show ?thesis .
qed

lemma sorted_stable_argsort_desc:
  "sorted_wrt (\<lambda>a b. b \<le> a) (map ((!) vs) (stable_argsort_desc vs))"
proof -
  let ?zs = "zip vs [0..<length vs]"
  let ?ps = "sort_key (\<lambda>p. - fst p) ?zs"
  have "vs ! snd p = fst p" if "p \<in> set ?ps" for p
  proof -
    from that have "p \<in> set ?zs" by simp
    then obtain n where "vs ! n = fst p" "[0..<length vs] ! n = snd p" "n < length vs"
      unfolding in_set_zip by auto
    then show ?thesis
      by simp
  qed
  then have eq: "map ((!) vs) (map snd ?ps) = map fst ?ps"
    unfolding map_map by (intro map_cong refl) simp
  have "sorted (map (\<lambda>p. - fst p) ?ps)"
    by (rule sorted_sort_key)
  then have "sorted_wrt (\<lambda>a b. fst b \<le> fst a) ?ps"
    by (simp only: sorted_map neg_le_iff_le)
  then have "sorted_wrt (\<lambda>a b. b \<le> a) (map fst ?ps)"
    by (simp only: sorted_wrt_map)
  then show ?thesis
    unfolding stable_argsort_desc_def eq .
qed

lemma L0_sorts_descending: "sorts_descending L0"
  by (simp add: sorts_descending_def L0_def mset_stable_argsort_desc sorted_stable_argsort_desc)

lemma stable_argsort_desc_pair:
  "stable_argsort_desc [a, b] = (if a < b then [Suc 0, 0] else [0, Suc 0])"
  by (simp add: stable_argsort_desc_def upt_rec)

lemma sort_values_desc_pair:
  "sort_values_desc L0 [x, y] =
     (if p_before_discount x < p_before_discount y then [y, x] else [x, y])"
  by (simp add: sort_values_desc_def L0_def stable_argsort_desc_pair)

lemma rollup_sum:
  assumes "sorts_descending L" and "prod_agg L df = Inr ps"
  shows "sum_list (map p_before_discount ps) =
         col_sum ''before_discount'' (live rollup_keys (rows df))"
proof -
  let ?xs = "map (prod_row_of (rows df)) (group_keys rollup_keys (rows df))"
  from assms(2) have ps: "ps = sort_values_desc L ?xs"
    by (simp add: prod_agg_closed require_Inr)
  have "mset (map p_before_discount ps) = mset (map p_before_discount ?xs)"
    unfolding ps by (simp only: mset_map mset_sort_values_desc[OF assms(1)])
  then have "sum_mset (mset (map p_before_discount ps)) = sum_mset (mset (map p_before_discount ?xs))"
    by (rule arg_cong)
  then have "sum_list (map p_before_discount ps) = sum_list (map p_before_discount ?xs)"
    by (simp only: sum_mset_sum_list)
  also have "\<dots> = col_sum ''before_discount'' (live rollup_keys (rows df))"
    by (simp add: o_def p_bd_prod_row_of sum_buckets)
  finally show ?thesis .
qed

definition shop_columns :: "string list" where
  "shop_columns = [''id'', ''order_date'', ''customer_id'', ''sku_id'', ''sku_name'', ''category'',
     ''payment_method'', ''qty_ordered'', ''before_discount'', ''after_discount'', ''cogs'']"

definition shop_row1 :: row where
  "shop_row1 = (\<lambda>_. NA)(''id'' := Num 1, ''order_date'' := Txt ''2022-01-15'',
     ''customer_id'' := Txt ''c1'', ''sku_id'' := Txt ''B'', ''sku_name'' := Txt ''Beta'',
     ''category'' := Txt ''Mobile'', ''payment_method'' := Txt ''JazzWallet'',
     ''qty_ordered'' := Num 2, ''before_discount'' := Num 100, ''after_discount'' := Num 90,
     ''cogs'' := Num 20)"

definition shop_row2 :: row where
  "shop_row2 = (\<lambda>_. NA)(''id'' := Num 2, ''order_date'' := Txt ''2022-02-01'',
     ''customer_id'' := Txt ''c2'', ''sku_id'' := Txt ''A'', ''sku_name'' := Txt ''Alpha'',
     ''category'' := Txt ''Laptop'', ''payment_method'' := Txt ''Card'',
     ''qty_ordered'' := Num 1, ''before_discount'' := Num 100, ''after_discount'' := Num 100,
     ''cogs'' := Num 30)"

definition shop_row3 :: row where
  "shop_row3 = (\<lambda>_. NA)(''id'' := Num 3, ''order_date'' := Txt ''2022-02-01'',
     ''customer_id'' := Txt ''c3'', ''sku_id'' := Txt ''C'', ''sku_name'' := NA,
     ''category'' := Txt ''Laptop'', ''payment_method'' := Txt ''Card'',
     ''qty_ordered'' := Num 1, ''before_discount'' := Num 50, ''after_discount'' := Num 50,
     ''cogs'' := Num 10)"

definition shop_raw :: frame where
  "shop_raw = \<lparr>columns = shop_columns, rows = [shop_row1, shop_row2, shop_row3]\<rparr>"

definition shop_view :: frame where
  "shop_view =
     (prepare L0 shop_raw)\<lparr>rows := filter (passes L0 sel_2022) (rows (prepare L0 shop_raw))\<rparr>"

lemma shop_od: "''order_date'' \<in> set (columns shop_raw)"
  by (simp add: shop_raw_def shop_columns_def)

lemma shop_strip_names: "map str_strip shop_columns = shop_columns"
  by (simp add: shop_columns_def str_strip_def is_space_def)

lemma rename_row_shop:
  "rename_row shop_columns r c = (if c \<in> set shop_columns then r c else NA)"
  by (simp add: rename_row_def shop_columns_def str_strip_def is_space_def)

lemma shop_rename:
  "rename_row shop_columns shop_row1 = shop_row1"
  "rename_row shop_columns shop_row2 = shop_row2"
  "rename_row shop_columns shop_row3 = shop_row3"
  by (rule ext, simp only: rename_row_shop, simp add: shop_columns_def shop_row1_def shop_row2_def
      shop_row3_def)+

lemma shop_strip: "strip_columns shop_raw = shop_raw"
  by (simp add: strip_columns_def shop_raw_def shop_strip_names shop_rename)

lemma shop_load: "load_data L0 shop_raw = Inr (prepare L0 shop_raw)"
  by (rule load_data_distinct[OF shop_strip shop_od]) (simp add: shop_raw_def shop_columns_def)

abbreviation "shop1 \<equiv> prepare_row L0 (set shop_columns) shop_row1"
abbreviation "shop2 \<equiv> prepare_row L0 (set shop_columns) shop_row2"
abbreviation "shop3 \<equiv> prepare_row L0 (set shop_columns) shop_row3"

lemma shop_rows: "rows (prepare L0 shop_raw) = [shop1, shop2, shop3]"
  by (simp add: rows_prepare[OF shop_od]) (simp add: shop_raw_def)

lemma shop_cols:
  "set (columns (prepare L0 shop_raw)) =
     set shop_columns \<union> {''net_profit'', ''year'', ''month'', ''month_name''}"
  by (simp add: cols_prepare[OF shop_od]) (simp add: shop_raw_def)

lemma shop_year:
  "shop1 ''year'' = Num 2022" "shop2 ''year'' = Num 2022" "shop3 ''year'' = Num 2022"
  by (simp_all add: prepare_row_year prepare_row_order_date shop_row1_def shop_row2_def
      shop_row3_def to_datetime_iso)

lemma shop_view_rows: "rows shop_view = [shop1, shop2, shop3]"
  by (simp add: shop_view_def shop_rows passes_def sel_2022_def shop_year)

lemma shop_filter: "apply_filters L0 (prepare L0 shop_raw) sel_2022 = Inr shop_view"
  unfolding apply_filters_Inr shop_view_def by (simp add: needed_def sel_2022_def shop_cols)

lemma shop_view_cols:
  "set (columns shop_view) =
     set shop_columns \<union> {''net_profit'', ''year'', ''month'', ''month_name''}"
  by (simp add: shop_view_def shop_cols)


lemma shop_keys:
  "key_of rollup_keys shop1 = [Txt ''B'', Txt ''Beta'', Txt ''Mobile'']"
  "key_of rollup_keys shop2 = [Txt ''A'', Txt ''Alpha'', Txt ''Laptop'']"
  "key_of rollup_keys shop3 = [Txt ''C'', NA, Txt ''Laptop'']"
  by (simp_all add: key_of_def rollup_keys_def other_cells_unchanged shop_row1_def shop_row2_def
      shop_row3_def)

lemma shop_live: "live rollup_keys (rows shop_view) = [shop1, shop2]"
  by (simp add: live_def shop_view_rows shop_keys)

lemma shop_group_keys:
  "group_keys rollup_keys (rows shop_view) =
     [[Txt ''A'', Txt ''Alpha'', Txt ''Laptop''], [Txt ''B'', Txt ''Beta'', Txt ''Mobile'']]"
  by (simp add: group_keys_def shop_live shop_keys)

lemma shop_buckets:
  "bucket rollup_keys (rows shop_view) [Txt ''A'', Txt ''Alpha'', Txt ''Laptop''] = [shop2]"
  "bucket rollup_keys (rows shop_view) [Txt ''B'', Txt ''Beta'', Txt ''Mobile''] = [shop1]"
  by (simp_all add: bucket_def shop_live shop_keys)

lemma shop_has:
  "''before_discount'' \<in> set shop_columns" "''cogs'' \<in> set shop_columns"
  "''qty_ordered'' \<in> set shop_columns" "''after_discount'' \<in> set shop_columns"
  by (simp_all add: shop_columns_def)

lemma shop_numeric:
  "c \<in> {''before_discount'', ''after_discount'', ''qty_ordered'', ''cogs''} \<Longrightarrow>
   prepare_row L0 (set shop_columns) r c = Num (fillna0 (to_numeric L0 (r c)))"
  by (rule prepare_row_numeric) (auto simp: numeric_columns_def shop_columns_def)

lemma shop_numbers:
  "shop1 ''before_discount'' = Num 100" "shop2 ''before_discount'' = Num 100"
  "shop3 ''before_discount'' = Num 50"
  "shop1 ''after_discount'' = Num 90" "shop2 ''after_discount'' = Num 100"
  "shop1 ''qty_ordered'' = Num 2" "shop2 ''qty_ordered'' = Num 1"
  "shop1 ''cogs'' = Num 20" "shop2 ''cogs'' = Num 30"
  by (simp_all add: shop_numeric to_numeric_def fillna0_def shop_row1_def shop_row2_def
      shop_row3_def)

lemma shop_net_profit: "shop1 ''net_profit'' = Num 60" "shop2 ''net_profit'' = Num 70"
  by (simp_all add: prepare_row_net_profit Let_def shop_numbers shop_has)

lemma shop_customers: "shop1 ''customer_id'' = Txt ''c1''" "shop2 ''customer_id'' = Txt ''c2''"
  by (simp_all add: other_cells_unchanged shop_row1_def shop_row2_def)

definition shop_rollup :: "prod_row list" where
  "shop_rollup =
     [\<lparr>p_key = [Txt ''A'', Txt ''Alpha'', Txt ''Laptop''], p_before_discount = 100,
        p_after_discount = 100, p_net_profit = 70, p_qty_ordered = 1, unique_customers = 1\<rparr>,
      \<lparr>p_key = [Txt ''B'', Txt ''Beta'', Txt ''Mobile''], p_before_discount = 100,
        p_after_discount = 90, p_net_profit = 60, p_qty_ordered = 2, unique_customers = 1\<rparr>]"

lemma shop_prod_agg: "prod_agg L0 shop_view = Inr shop_rollup"
proof -
  have "set rollup_columns \<subseteq> set (columns shop_view)"
    by (simp add: shop_view_cols rollup_columns_def shop_columns_def)
  then show ?thesis
    by (simp add: prod_agg_closed require_all shop_group_keys prod_row_of_def shop_buckets
        col_sum_def nunique_def shop_numbers shop_net_profit shop_customers shop_rollup_def
        sort_values_desc_pair)
qed

text \<open>
  Claim C5 does not hold of the code. In the table above the third row has no product
  name; \<open>groupby\<close> drops it, so the rollup sums to 200 where the filtered view sums to
  250. (Lemma \<open>rollup_sum\<close>: the rollup always sums to the sum over the rows that have
  all three key cells.)
\<close>

theorem rollup_total_misses_rows:
  "load_data L0 shop_raw = Inr (prepare L0 shop_raw) \<and>
   apply_filters L0 (prepare L0 shop_raw) sel_2022 = Inr shop_view \<and>
   prod_agg L0 shop_view = Inr shop_rollup \<and>
   sum_list (map p_before_discount shop_rollup) = 200 \<and>
   col_sum ''before_discount'' (rows shop_view) = 250"
  using shop_load shop_filter shop_prod_agg
  by (simp add: col_sum_def shop_view_rows shop_numbers) (simp add: shop_rollup_def)

text \<open>
  A second table: the first two rows of the table above and a second sale of product
  \<open>B\<close>. Product \<open>A\<close> sums to 100 and product \<open>B\<close> to 175, so the sort has to
  put the second group before the first.
\<close>

definition shop_row4 :: row where
  "shop_row4 = (\<lambda>_. NA)(''id'' := Num 4, ''order_date'' := Txt ''2022-02-01'',
     ''customer_id'' := Txt ''c4'', ''sku_id'' := Txt ''B'', ''sku_name'' := Txt ''Beta'',
     ''category'' := Txt ''Mobile'', ''payment_method'' := Txt ''Card'',
     ''qty_ordered'' := Num 1, ''before_discount'' := Num 75, ''after_discount'' := Num 70,
     ''cogs'' := Num 25)"

definition top_raw :: frame where
  "top_raw = \<lparr>columns = shop_columns, rows = [shop_row1, shop_row2, shop_row4]\<rparr>"

definition top_view :: frame where
  "top_view =
     (prepare L0 top_raw)\<lparr>rows := filter (passes L0 sel_2022) (rows (prepare L0 top_raw))\<rparr>"

lemma top_od: "''order_date'' \<in> set (columns top_raw)"
  by (simp add: top_raw_def shop_columns_def)

lemma top_rename: "rename_row shop_columns shop_row4 = shop_row4"
  by (rule ext, simp only: rename_row_shop, simp add: shop_columns_def shop_row4_def)

lemma top_strip: "strip_columns top_raw = top_raw"
  by (simp add: strip_columns_def top_raw_def shop_strip_names shop_rename top_rename)

lemma top_load: "load_data L0 top_raw = Inr (prepare L0 top_raw)"
  by (rule load_data_distinct[OF top_strip top_od]) (simp add: top_raw_def shop_columns_def)

abbreviation "shop4 \<equiv> prepare_row L0 (set shop_columns) shop_row4"

lemma top_rows: "rows (prepare L0 top_raw) = [shop1, shop2, shop4]"
  by (simp add: rows_prepare[OF top_od]) (simp add: top_raw_def)

lemma top_cols:
  "set (columns (prepare L0 top_raw)) =
     set shop_columns \<union> {''net_profit'', ''year'', ''month'', ''month_name''}"
  by (simp add: cols_prepare[OF top_od]) (simp add: top_raw_def)

lemma shop4_year: "shop4 ''year'' = Num 2022"
  by (simp add: prepare_row_year prepare_row_order_date shop_row4_def to_datetime_iso)

lemma top_view_rows: "rows top_view = [shop1, shop2, shop4]"
  by (simp add: top_view_def top_rows passes_def sel_2022_def shop_year shop4_year)

lemma top_filter: "apply_filters L0 (prepare L0 top_raw) sel_2022 = Inr top_view"
  unfolding apply_filters_Inr top_view_def by (simp add: needed_def sel_2022_def top_cols)

lemma top_view_cols:
  "set (columns top_view) =
     set shop_columns \<union> {''net_profit'', ''year'', ''month'', ''month_name''}"
  by (simp add: top_view_def top_cols)

lemma shop4_key: "key_of rollup_keys shop4 = [Txt ''B'', Txt ''Beta'', Txt ''Mobile'']"
  by (simp add: key_of_def rollup_keys_def other_cells_unchanged shop_row4_def)

lemma top_live: "live rollup_keys (rows top_view) = [shop1, shop2, shop4]"
  by (simp add: live_def top_view_rows shop_keys shop4_key)

lemma top_group_keys:
  "group_keys rollup_keys (rows top_view) =
     [[Txt ''A'', Txt ''Alpha'', Txt ''Laptop''], [Txt ''B'', Txt ''Beta'', Txt ''Mobile'']]"
  by (simp add: group_keys_def top_live shop_keys shop4_key)

lemma top_buckets:
  "bucket rollup_keys (rows top_view) [Txt ''A'', Txt ''Alpha'', Txt ''Laptop''] = [shop2]"
  "bucket rollup_keys (rows top_view) [Txt ''B'', Txt ''Beta'', Txt ''Mobile''] = [shop1, shop4]"
  by (simp_all add: bucket_def top_live shop_keys shop4_key)

lemma shop4_numbers:
  "shop4 ''before_discount'' = Num 75" "shop4 ''after_discount'' = Num 70"
  "shop4 ''qty_ordered'' = Num 1" "shop4 ''cogs'' = Num 25"
  by (simp_all add: shop_numeric to_numeric_def fillna0_def shop_row4_def)

lemma shop4_net_profit: "shop4 ''net_profit'' = Num 50"
  by (simp add: prepare_row_net_profit Let_def shop4_numbers shop_has)

lemma shop4_customer: "shop4 ''customer_id'' = Txt ''c4''"
  by (simp add: other_cells_unchanged shop_row4_def)

definition top_rollup :: "prod_row list" where
  "top_rollup =
     [\<lparr>p_key = [Txt ''B'', Txt ''Beta'', Txt ''Mobile''], p_before_discount = 175,
        p_after_discount = 160, p_net_profit = 110, p_qty_ordered = 3, unique_customers = 2\<rparr>,
      \<lparr>p_key = [Txt ''A'', Txt ''Alpha'', Txt ''Laptop''], p_before_discount = 100,
        p_after_discount = 100, p_net_profit = 70, p_qty_ordered = 1, unique_customers = 1\<rparr>]"

lemma top_prod_agg: "prod_agg L0 top_view = Inr top_rollup"
proof -
  have "set rollup_columns \<subseteq> set (columns top_view)"
    by (simp add: top_view_cols rollup_columns_def shop_columns_def)
  then show ?thesis
    by (simp add: prod_agg_closed require_all top_group_keys prod_row_of_def top_buckets
        col_sum_def nunique_def shop_numbers shop_net_profit shop_customers shop4_numbers
        shop4_net_profit shop4_customer top_rollup_def sort_values_desc_pair)
qed

text \<open>The keys of a view in the order in which they first appear in it.\<close>

definition discovery_order :: "string list \<Rightarrow> row list \<Rightarrow> cell list list" where
  "discovery_order ks rs = rev (remdups (rev (map (key_of ks) (live ks rs))))"

text \<open>
  Claim C8, as amended. Let the view have the columns of the rollup, and let the sort of
  the library give, for every column of numbers, every position once with the numbers in
  descending order. Then the rollup returns; its rows are in descending order of the summed
  \<open>before_discount\<close>; there is exactly one row for every key (product id, product name,
  category, none of them missing) that occurs in the view; and the sum of a row is the sum
  of \<open>before_discount\<close> over the rows of the view with its key. About the order of rows
  with equal sums nothing is said: line 127 sorts with the default kind \<open>quicksort\<close>,
  which is not stable, so the code does not fix that order; and the order in which keys
  first appear in the view is already lost before the sort, because the grouping gives
  the groups in ascending order of the keys.
\<close>

theorem rollup_sorted_descending:
  assumes "set rollup_columns \<subseteq> set (columns V)" and "sorts_descending L"
  shows "\<exists>ps. prod_agg L V = Inr ps \<and>
     sorted_wrt (\<lambda>a b. p_before_discount a \<ge> p_before_discount b) ps \<and>
     distinct (map p_key ps) \<and>
     set (map p_key ps) = {k \<in> key_of rollup_keys ` set (rows V). NA \<notin> set k} \<and>
     (\<forall>p \<in> set ps.
        p_before_discount p =
          sum_list (map (\<lambda>r. num (r ''before_discount''))
                     (filter (\<lambda>r. key_of rollup_keys r = p_key p) (rows V))))"
proof -
  let ?K = "group_keys rollup_keys (rows V)"
  let ?xs = "map (prod_row_of (rows V)) ?K"
  let ?ps = "sort_values_desc L ?xs"
  have ret: "prod_agg L V = Inr ?ps"
    using assms(1) by (simp add: prod_agg_closed require_all)
  have keys_xs: "map p_key ?xs = ?K"
    by (simp add: o_def p_key_prod_row_of)
  have desc: "sorted_wrt (\<lambda>a b. p_before_discount a \<ge> p_before_discount b) ?ps"
    by (rule sorted_sort_values_desc[OF assms(2)])
  have m: "mset ?ps = mset ?xs"
    by (rule mset_sort_values_desc[OF assms(2)])
  then have "mset (map p_key ?ps) = mset (map p_key ?xs)"
    by (simp only: mset_map)
  then have mk: "mset (map p_key ?ps) = mset ?K"
    by (simp only: keys_xs)
  have dist: "distinct (map p_key ?ps)"
    using mset_eq_imp_distinct_iff[OF mk] distinct_group_keys[of rollup_keys "rows V"] by simp
  have "set (map p_key ?ps) = set ?K"
    by (rule mset_eq_setD[OF mk])
  also have "\<dots> = {k \<in> key_of rollup_keys ` set (rows V). NA \<notin> set k}"
    by (auto simp: set_group_keys live_def)
  finally have st: "set (map p_key ?ps) = {k \<in> key_of rollup_keys ` set (rows V). NA \<notin> set k}" .
  have sums: "p_before_discount p =
          sum_list (map (\<lambda>r. num (r ''before_discount''))
                     (filter (\<lambda>r. key_of rollup_keys r = p_key p) (rows V)))"
    if "p \<in> set ?ps" for p
  proof -
    from that have "p \<in> set ?xs"
      using mset_eq_setD[OF m] by simp
    then obtain k where k: "k \<in> set ?K" and p: "p = prod_row_of (rows V) k"
      by auto
    show ?thesis
      unfolding p p_key_prod_row_of p_bd_prod_row_of bucket_of_key[OF k] col_sum_def ..
  qed
  from sums have sums': "\<forall>p \<in> set ?ps.
        p_before_discount p =
          sum_list (map (\<lambda>r. num (r ''before_discount''))
                     (filter (\<lambda>r. key_of rollup_keys r = p_key p) (rows V)))"
    by (rule ballI)
  show ?thesis
    by (rule exI[of _ ?ps]) (intro conjI ret desc dist st sums')
qed

theorem rollup_sorted_descending_witness:
  "set rollup_columns \<subseteq> set (columns top_view) \<and> sorts_descending L0 \<and>
   apply_filters L0 (prepare L0 top_raw) sel_2022 = Inr top_view \<and>
   (\<exists>ps. prod_agg L0 top_view = Inr ps \<and>
      map (\<lambda>p. (p_key p, p_before_discount p)) ps =
        [([Txt ''B'', Txt ''Beta'', Txt ''Mobile''], 175),
         ([Txt ''A'', Txt ''Alpha'', Txt ''Laptop''], 100)] \<and>
      sorted_wrt (\<lambda>a b. p_before_discount a \<ge> p_before_discount b) ps \<and>
      distinct (map p_key ps))"
proof -
  have c: "set rollup_columns \<subseteq> set (columns top_view)"
    by (simp add: top_view_cols rollup_columns_def shop_columns_def)
  from rollup_sorted_descending[OF c L0_sorts_descending] obtain ps
    where ps: "prod_agg L0 top_view = Inr ps"
      and s: "sorted_wrt (\<lambda>a b. p_before_discount a \<ge> p_before_discount b) ps"
      and d: "distinct (map p_key ps)"
    by (elim exE conjE)
  from ps have "ps = top_rollup"
    by (simp add: top_prod_agg)
  then have v: "map (\<lambda>p. (p_key p, p_before_discount p)) ps =
        [([Txt ''B'', Txt ''Beta'', Txt ''Mobile''], 175),
         ([Txt ''A'', Txt ''Alpha'', Txt ''Laptop''], 100)]"
    by (simp add: top_rollup_def)
  have "\<exists>ps. prod_agg L0 top_view = Inr ps \<and>
      map (\<lambda>p. (p_key p, p_before_discount p)) ps =
        [([Txt ''B'', Txt ''Beta'', Txt ''Mobile''], 175),
         ([Txt ''A'', Txt ''Alpha'', Txt ''Laptop''], 100)] \<and>
      sorted_wrt (\<lambda>a b. p_before_discount a \<ge> p_before_discount b) ps \<and>
      distinct (map p_key ps)"
    by (intro exI[of _ ps] conjI ps v s d)
  then show ?thesis
    by (intro conjI c L0_sorts_descending top_filter)
qed

text \<open>
  The first table with its first two rows exchanged: the same rows, product \<open>A\<close> seen
  first.
\<close>

definition swap_raw :: frame where
  "swap_raw = \<lparr>columns = shop_columns, rows = [shop_row2, shop_row1, shop_row3]\<rparr>"

definition swap_view :: frame where
  "swap_view =
     (prepare L0 swap_raw)\<lparr>rows := filter (passes L0 sel_2022) (rows (prepare L0 swap_raw))\<rparr>"

lemma swap_od: "''order_date'' \<in> set (columns swap_raw)"
  by (simp add: swap_raw_def shop_columns_def)

lemma swap_strip: "strip_columns swap_raw = swap_raw"
  by (simp add: strip_columns_def swap_raw_def shop_strip_names shop_rename)

lemma swap_load: "load_data L0 swap_raw = Inr (prepare L0 swap_raw)"
  by (rule load_data_distinct[OF swap_strip swap_od]) (simp add: swap_raw_def shop_columns_def)

lemma swap_rows: "rows (prepare L0 swap_raw) = [shop2, shop1, shop3]"
  by (simp add: rows_prepare[OF swap_od]) (simp add: swap_raw_def)

lemma swap_cols:
  "set (columns (prepare L0 swap_raw)) =
     set shop_columns \<union> {''net_profit'', ''year'', ''month'', ''month_name''}"
  by (simp add: cols_prepare[OF swap_od]) (simp add: swap_raw_def)

lemma swap_view_rows: "rows swap_view = [shop2, shop1, shop3]"
  by (simp add: swap_view_def swap_rows passes_def sel_2022_def shop_year)

lemma swap_filter: "apply_filters L0 (prepare L0 swap_raw) sel_2022 = Inr swap_view"
  unfolding apply_filters_Inr swap_view_def by (simp add: needed_def sel_2022_def swap_cols)

lemma swap_view_cols:
  "set (columns swap_view) =
     set shop_columns \<union> {''net_profit'', ''year'', ''month'', ''month_name''}"
  by (simp add: swap_view_def swap_cols)

lemma swap_live: "live rollup_keys (rows swap_view) = [shop2, shop1]"
  by (simp add: live_def swap_view_rows shop_keys)

lemma swap_group_keys:
  "group_keys rollup_keys (rows swap_view) =
     [[Txt ''A'', Txt ''Alpha'', Txt ''Laptop''], [Txt ''B'', Txt ''Beta'', Txt ''Mobile'']]"
  by (simp add: group_keys_def swap_live shop_keys)

lemma swap_buckets:
  "bucket rollup_keys (rows swap_view) [Txt ''A'', Txt ''Alpha'', Txt ''Laptop''] = [shop2]"
  "bucket rollup_keys (rows swap_view) [Txt ''B'', Txt ''Beta'', Txt ''Mobile''] = [shop1]"
  by (simp_all add: bucket_def swap_live shop_keys)

lemma swap_prod_agg: "prod_agg L swap_view = prod_agg L shop_view"
proof -
  have "set rollup_columns \<subseteq> set (columns shop_view)"
    "set rollup_columns \<subseteq> set (columns swap_view)"
    by (simp_all add: shop_view_cols swap_view_cols rollup_columns_def shop_columns_def)
  then show ?thesis
    by (simp add: prod_agg_closed require_all shop_group_keys swap_group_keys prod_row_of_def
        shop_buckets swap_buckets)
qed

text \<open>
  The claim as first stated fails: in the first table product \<open>B\<close> is seen first and
  product \<open>A\<close> second, both sum to 100, and the rollup lists \<open>A\<close> before \<open>B\<close>.
  This does not hang on the sort: with the two rows exchanged product \<open>A\<close> is seen
  first, and the rollup is the same with every sort, so whatever order a sort gives to the
  two products, in one of the two tables it is not the order in which they are seen.
\<close>

theorem rollup_ties_counterexample:
  "apply_filters L0 (prepare L0 shop_raw) sel_2022 = Inr shop_view \<and>
   (case prod_agg L0 shop_view of Inl e \<Rightarrow> []
    | Inr ps \<Rightarrow> map (\<lambda>p. (p_before_discount p, p_key p)) ps) =
     [(100, [Txt ''A'', Txt ''Alpha'', Txt ''Laptop'']),
      (100, [Txt ''B'', Txt ''Beta'', Txt ''Mobile''])] \<and>
   discovery_order rollup_keys (rows shop_view) =
     [[Txt ''B'', Txt ''Beta'', Txt ''Mobile''], [Txt ''A'', Txt ''Alpha'', Txt ''Laptop'']] \<and>
   apply_filters L0 (prepare L0 swap_raw) sel_2022 = Inr swap_view \<and>
   discovery_order rollup_keys (rows swap_view) =
     [[Txt ''A'', Txt ''Alpha'', Txt ''Laptop''], [Txt ''B'', Txt ''Beta'', Txt ''Mobile'']] \<and>
   (\<forall>L. prod_agg L swap_view = prod_agg L shop_view)"
  using shop_filter swap_filter swap_prod_agg
  by (simp add: shop_prod_agg discovery_order_def shop_live swap_live shop_keys)
     (simp add: shop_rollup_def)

section \<open>Mobile and tablet paid via JazzWallet\<close>








text \<open>The example table with a column of customer ids, the two ids being any cells.\<close>

definition cust_columns :: "string list" where
  "cust_columns = ex_columns @ [''customer_id'']"









abbreviation "cust1 x \<equiv> prepare_row L0 (set cust_columns) (ex_row1(''customer_id'' := x))"
abbreviation "cust2 x \<equiv> prepare_row L0 (set cust_columns) (ex_row2(''customer_id'' := x))"














text \<open>
  A table with more rows in the segment: the two rows above, a tablet paid with another
  wallet of the provider, written in other cases, and a mobile whose sale is not valid.
\<close>

definition seg_row3 :: row where
  "seg_row3 = ex_row1(''id'' := Num 3, ''customer_id'' := Txt ''c3'',
     ''category'' := Txt ''TABLET'', ''payment_method'' := Txt ''jazzcash'',
     ''qty_ordered'' := Num 3)"

definition seg_row4 :: row where
  "seg_row4 = ex_row1(''id'' := Num 4, ''customer_id'' := Txt ''c4'', ''is_valid'' := Num 0)"







abbreviation "seg1 \<equiv> cust1 (Txt ''c1'')"
abbreviation "seg2 \<equiv> cust2 (Txt ''c2'')"
abbreviation "seg3 \<equiv> prepare_row L0 (set cust_columns) seg_row3"
abbreviation "seg4 \<equiv> prepare_row L0 (set cust_columns) seg_row4"

















end
